theory Spec2Isabelle
  imports Main "HOL-Library.Char_ord" "HOL-Library.List_Lexorder"
begin

section \<open>Bindings and the registry\<close>

text \<open>
  \<^verbatim>\<open>packages/core/src/application.ts\<close> imports \<^verbatim>\<open>Binding\<close>, \<^verbatim>\<open>BindingScope\<close>,
  \<^verbatim>\<open>BindingType\<close> and \<^verbatim>\<open>Context\<close> from \<^verbatim>\<open>@loopback/context\<close>, and the tag and key
  constants from \<^verbatim>\<open>./keys\<close>. Their declarations are modelled here.
\<close>

text \<open>
  Modelled from the spec: the declaration of \<^verbatim>\<open>BindingType\<close> is missing; a binding has a
  type (constant | class-factory | provider).
\<close>

datatype BindingType = CONSTANT | CLASS | PROVIDER

text \<open>
  Modelled from the spec: the declaration of \<^verbatim>\<open>BindingScope\<close> is missing; a binding has a
  scope (transient | singleton | constant). The code names \<^verbatim>\<open>BindingScope.SINGLETON\<close> only.
\<close>

datatype BindingScope = TRANSIENT | SINGLETON | CONSTANT_SCOPE

text \<open>
  Modelled from the spec: the declaration of \<^verbatim>\<open>Binding\<close> is missing; a binding is identified
  by a string key and has a type (undefined until a value source is set), a scope and a tag map
  from tag names to tag values. Tag values
  are strings (the ordering key is the server-tag value, "a string, possibly empty"); a string
  is its sequence of code units, compared as JavaScript does: code unit by code unit, a proper
  prefix first.
\<close>

record Binding =
  key :: string
  type :: "BindingType option"
  scope :: BindingScope
  tagMap :: "string \<rightharpoonup> string"

text \<open>
  Modelled from the spec: the constants of \<^verbatim>\<open>CoreBindings\<close> (\<^verbatim>\<open>./keys\<close>) are missing; the
  tags are "lifecycle-observer", "server", "component", and the key prefixes of servers and
  components are "servers" and "components" (the doc comment of \<^verbatim>\<open>server\<close> binds
  \<^verbatim>\<open>RestServer\<close> under "servers.RestServer"). The tag of controllers is not named anywhere;
  it is taken to be "controller".
\<close>

definition LIFE_CYCLE_OBSERVER_TAG :: string where
  "LIFE_CYCLE_OBSERVER_TAG = ''lifecycle-observer''"

definition SERVER_TAG :: string where
  "SERVER_TAG = ''server''"

definition COMPONENT_TAG :: string where
  "COMPONENT_TAG = ''component''"

definition CONTROLLER_TAG :: string where
  "CONTROLLER_TAG = ''controller''"

definition SERVERS :: string where
  "SERVERS = ''servers''"

definition COMPONENTS :: string where
  "COMPONENTS = ''components''"

text \<open>
  The registry of a context: its bindings in insertion order (a JavaScript \<^verbatim>\<open>Map\<close> from key
  to binding iterates in insertion order).
\<close>

type_synonym Registry = "Binding list"

text \<open>
  Modelled from the spec: \<^verbatim>\<open>Context.find\<close> is missing; \<^verbatim>\<open>find(predicate)\<close> returns the
  ordered sequence of the bindings that satisfy the predicate.
\<close>

definition find_bindings :: "Registry \<Rightarrow> (Binding \<Rightarrow> bool) \<Rightarrow> Binding list" where
  "find_bindings reg p = filter p reg"

section \<open>Discovery and ordering of life cycle observers\<close>

text \<open>
  JavaScript's tests on a tag value \<^verbatim>\<open>v = tagMap[tag]\<close>: \<^verbatim>\<open>v != null\<close> holds when the tag
  is present, and \<^verbatim>\<open>v\<close> is truthy when the tag is present with a non-empty string.
\<close>

definition not_nullish :: "string option \<Rightarrow> bool" where
  "not_nullish v = (v \<noteq> None)"

definition truthy :: "string option \<Rightarrow> bool" where
  "truthy v = (case v of None \<Rightarrow> False | Some s \<Rightarrow> s \<noteq> [])"

text \<open>The filter function passed to \<^verbatim>\<open>this.find\<close> in \<^verbatim>\<open>_findLifeCycleObserverBindings\<close>.\<close>

definition isLifeCycleObserverBinding :: "Binding \<Rightarrow> bool" where
  "isLifeCycleObserverBinding binding =
     ((type binding = Some CONSTANT \<or> scope binding = SINGLETON) \<and>
      (not_nullish (tagMap binding LIFE_CYCLE_OBSERVER_TAG) \<or>
       truthy (tagMap binding SERVER_TAG)))"

text \<open>
  The selection in the words of the specification, for comparison: the scope is constant or
  singleton, and the tag map contains a "lifecycle-observer" tag or a "server" tag.
\<close>

definition spec_isLifeCycleObserverBinding :: "Binding \<Rightarrow> bool" where
  "spec_isLifeCycleObserverBinding binding =
     ((scope binding = CONSTANT_SCOPE \<or> scope binding = SINGLETON) \<and>
      (tagMap binding LIFE_CYCLE_OBSERVER_TAG \<noteq> None \<or> tagMap binding SERVER_TAG \<noteq> None))"

text \<open>\<^verbatim>\<open>tagMap[SERVER_TAG] || ''\<close>: the server tag, the empty string when absent or empty.\<close>

definition serverTag :: "Binding \<Rightarrow> string" where
  "serverTag b =
     (case tagMap b SERVER_TAG of None \<Rightarrow> [] | Some s \<Rightarrow> if s \<noteq> [] then s else [])"

text \<open>The comparator of \<^verbatim>\<open>_sortLifeCycleObserverBindings\<close>.\<close>

definition compareBindings :: "Binding \<Rightarrow> Binding \<Rightarrow> int" where
  "compareBindings b1 b2 =
     (let tag1 = serverTag b1; tag2 = serverTag b2
      in if tag1 > tag2 then 1 else if tag1 < tag2 then - 1 else 0)"

text \<open>
  \<^verbatim>\<open>Array.prototype.sort\<close> with a comparator, as ECMAScript 2019 specifies it: a stable sort.
  An element is inserted before the first element that the comparator does not place before it.
\<close>

fun array_insert :: "('a \<Rightarrow> 'a \<Rightarrow> int) \<Rightarrow> 'a \<Rightarrow> 'a list \<Rightarrow> 'a list" where
  "array_insert cmp x [] = [x]"
| "array_insert cmp x (y # ys) =
     (if cmp x y \<le> 0 then x # y # ys else y # array_insert cmp x ys)"

definition array_sort :: "('a \<Rightarrow> 'a \<Rightarrow> int) \<Rightarrow> 'a list \<Rightarrow> 'a list" where
  "array_sort cmp xs = foldr (array_insert cmp) xs []"

definition sortLifeCycleObserverBindings :: "Binding list \<Rightarrow> Binding list" where
  "sortLifeCycleObserverBindings bindings = array_sort compareBindings bindings"

definition findLifeCycleObserverBindings :: "Registry \<Rightarrow> Binding list" where
  "findLifeCycleObserverBindings reg =
     sortLifeCycleObserverBindings (find_bindings reg isLifeCycleObserverBinding)"

section \<open>Starting and stopping\<close>

text \<open>
  What \<^verbatim>\<open>start\<close> and \<^verbatim>\<open>stop\<close> consume from their environment, over a state \<open>'s\<close> of the
  running process, instances \<open>'i\<close> and errors \<open>'e\<close>: \<^verbatim>\<open>this.get(key)\<close> resolves a key to an
  instance or rejects; \<^verbatim>\<open>isLifeCycleObserver\<close> (\<^verbatim>\<open>./lifecycle\<close>, missing) tests the
  capability; the \<^verbatim>\<open>start\<close> and \<^verbatim>\<open>stop\<close> methods of an instance complete (\<open>None\<close>) or
  reject with an error. Every awaited call may change the state.
\<close>

record ('s, 'i, 'e) Runtime =
  get :: "string \<Rightarrow> 's \<Rightarrow> ('e + 'i) \<times> 's"
  isLifeCycleObserver :: "'i \<Rightarrow> bool"
  observer_start :: "'i \<Rightarrow> 's \<Rightarrow> 'e option \<times> 's"
  observer_stop :: "'i \<Rightarrow> 's \<Rightarrow> 'e option \<times> 's"

text \<open>The calls made, in the order they are made, each with the key of its binding.\<close>

datatype Event = Get string | Start string | Stop string

text \<open>
  The \<^verbatim>\<open>for (const binding of bindings)\<close> loop of \<^verbatim>\<open>start\<close> and of \<^verbatim>\<open>stop\<close>; the two
  bodies differ in the method invoked only (\<open>method\<close>, recorded as \<open>ev\<close>). The result is the
  outcome of the promise (\<open>None\<close>: resolved, \<open>Some e\<close>: rejected with \<open>e\<close>), the state left and
  the calls made.
\<close>

fun notify ::
  "('s, 'i, 'e) Runtime \<Rightarrow> ('i \<Rightarrow> 's \<Rightarrow> 'e option \<times> 's) \<Rightarrow> (string \<Rightarrow> Event) \<Rightarrow>
   Binding list \<Rightarrow> 's \<Rightarrow> 'e option \<times> 's \<times> Event list" where
  "notify rt method ev [] s = (None, s, [])"
| "notify rt method ev (binding # bindings) s =
     (case get rt (key binding) s of
        (Inl e, s1) \<Rightarrow> (Some e, s1, [Get (key binding)])
      | (Inr observer, s1) \<Rightarrow>
          if isLifeCycleObserver rt observer then
            (case method observer s1 of
               (Some e, s2) \<Rightarrow> (Some e, s2, [Get (key binding), ev (key binding)])
             | (None, s2) \<Rightarrow>
                 (case notify rt method ev bindings s2 of
                    (r, s3, evs) \<Rightarrow> (r, s3, Get (key binding) # ev (key binding) # evs)))
          else
            (case notify rt method ev bindings s1 of
               (r, s3, evs) \<Rightarrow> (r, s3, Get (key binding) # evs)))"

definition start ::
  "('s, 'i, 'e) Runtime \<Rightarrow> Registry \<Rightarrow> 's \<Rightarrow> 'e option \<times> 's \<times> Event list" where
  "start rt reg s =
     (let bindings = findLifeCycleObserverBindings reg
      in notify rt (observer_start rt) Start bindings s)"

definition stop ::
  "('s, 'i, 'e) Runtime \<Rightarrow> Registry \<Rightarrow> 's \<Rightarrow> 'e option \<times> 's \<times> Event list" where
  "stop rt reg s =
     (let bindings = findLifeCycleObserverBindings reg
      in notify rt (observer_stop rt) Stop (rev bindings) s)"

text \<open>The keys resolved, and the keys whose observer was invoked, in a sequence of calls.\<close>

fun resolved :: "Event list \<Rightarrow> string list" where
  "resolved [] = []"
| "resolved (Get k # evs) = k # resolved evs"
| "resolved (e # evs) = resolved evs"

fun invoked :: "Event list \<Rightarrow> string list" where
  "invoked [] = []"
| "invoked (Get k # evs) = invoked evs"
| "invoked (Start k # evs) = k # invoked evs"
| "invoked (Stop k # evs) = k # invoked evs"

section \<open>Registration\<close>

text \<open>
  A registration fails with a duplicate key, or with what a constructor throws. Every operation
  returns its outcome together with the registry it leaves, also when it fails.
\<close>

datatype Error = DuplicateKey string | Thrown string

type_synonym 'a Result = "(Error + 'a) \<times> Registry"

text \<open>
  Modelled from the spec: \<^verbatim>\<open>Context.bind\<close> and the builder methods of \<^verbatim>\<open>Binding\<close> are
  missing. \<^verbatim>\<open>bind(key)\<close> creates a binding under the key and adds it to the registry; the
  registry enforces key uniqueness, so a key colliding with an existing binding is a
  duplicate-key error. The builder is chainable: \<^verbatim>\<open>.toClass(ctor)\<close>, \<^verbatim>\<open>.inScope(scope)\<close>,
  \<^verbatim>\<open>.tag(tagName[, tagValue])\<close>. The spec gives no value to a tag without one and no scope
  to a new binding: here the value is the tag's name and the scope is transient.
\<close>

definition bind :: "Registry \<Rightarrow> string \<Rightarrow> Binding Result" where
  "bind reg k =
     (if k \<in> set (map key reg) then (Inl (DuplicateKey k), reg)
      else (let b = \<lparr>key = k, type = None, scope = TRANSIENT, tagMap = Map.empty\<rparr>
            in (Inr b, reg @ [b])))"

text \<open>
  Modelled from the spec: \<^verbatim>\<open>Binding.toClass\<close> is missing; \<^verbatim>\<open>.toClass(ctor)\<close> makes the
  binding a class-factory binding.
\<close>

definition toClass :: "Binding \<Rightarrow> Binding" where
  "toClass b = b\<lparr>type := Some CLASS\<rparr>"

text \<open>
  Modelled from the spec: \<^verbatim>\<open>Binding.toProvider\<close> is missing; it makes the binding a provider
  binding.
\<close>

definition toProvider :: "Binding \<Rightarrow> Binding" where
  "toProvider b = b\<lparr>type := Some PROVIDER\<rparr>"

text \<open>
  Modelled from the spec: \<^verbatim>\<open>Binding.inScope\<close> is missing; \<^verbatim>\<open>.inScope(scope)\<close> sets the scope.
\<close>

definition inScope :: "Binding \<Rightarrow> BindingScope \<Rightarrow> Binding" where
  "inScope b sc = b\<lparr>scope := sc\<rparr>"

text \<open>
  Modelled from the spec: \<^verbatim>\<open>Binding.tag\<close> is missing; \<^verbatim>\<open>.tag(tagName)\<close> adds the tag to the
  tag map.
\<close>

definition tag :: "Binding \<Rightarrow> string \<Rightarrow> Binding" where
  "tag b t = b\<lparr>tagMap := (tagMap b)(t \<mapsto> t)\<rparr>"

text \<open>
  The builder methods mutate the binding that the registry holds: the registry entry under the
  binding's key is the configured binding.
\<close>

definition store :: "Binding \<Rightarrow> Registry \<Rightarrow> Registry" where
  "store b reg = map (\<lambda>x. if key x = key b then b else x) reg"

text \<open>
  Modelled from the spec: \<^verbatim>\<open>asLifeCycleObserverBinding\<close> (\<^verbatim>\<open>./lifecycle\<close>) is missing; the
  life cycle observer wiring tags the binding as a lifecycle observer.
\<close>

definition asLifeCycleObserverBinding :: "Binding \<Rightarrow> Binding" where
  "asLifeCycleObserverBinding b = tag b LIFE_CYCLE_OBSERVER_TAG"

text \<open>
  A class, with its \<^verbatim>\<open>name\<close>. A component class has, besides, the answer of
  \<^verbatim>\<open>isLifeCycleObserverClass\<close> (\<^verbatim>\<open>./lifecycle\<close>, missing) and the outcome of instantiating it,
  which is what \<^verbatim>\<open>getSync\<close> returns for its singleton binding: the instance, or what the
  constructor throws.
\<close>

record Constructor =
  name :: string

text \<open>
  Modelled from the spec: the declaration of \<^verbatim>\<open>Component\<close> (\<^verbatim>\<open>./component\<close>) is missing; a
  component descriptor holds optional arrays of controller classes, server classes and
  providers (an absent array declares nothing, as the empty one). A provider is declared with
  the key it is bound under.
\<close>

record Component =
  componentControllers :: "Constructor list"
  componentServers :: "Constructor list"
  componentProviders :: "(string \<times> Constructor) list"

record ComponentConstructor = Constructor +
  isLifeCycleObserverClass :: bool
  instantiate :: "Error + Component"

text \<open>\<^verbatim>\<open>name || ctor.name\<close>: the class name when the name is undefined or empty.\<close>

definition or_default :: "string option \<Rightarrow> string \<Rightarrow> string" where
  "or_default n d = (case n of None \<Rightarrow> d | Some s \<Rightarrow> if s \<noteq> [] then s else d)"

text \<open>\<^verbatim>\<open>Application.controller\<close>: the binding is created, configured and returned.\<close>

definition controller :: "Registry \<Rightarrow> Constructor \<Rightarrow> string option \<Rightarrow> Binding Result" where
  "controller reg controllerCtor name0 =
     (let name1 = or_default name0 (name controllerCtor);
          k = ''controllers.'' @ name1
      in case bind reg k of
           (Inl e, reg1) \<Rightarrow> (Inl e, reg1)
         | (Inr b, reg1) \<Rightarrow>
             (let b1 = tag (toClass b) CONTROLLER_TAG in (Inr b1, store b1 reg1)))"

text \<open>\<^verbatim>\<open>Application.server\<close>.\<close>

definition server :: "Registry \<Rightarrow> Constructor \<Rightarrow> string option \<Rightarrow> Binding Result" where
  "server reg ctor name0 =
     (let suffix = or_default name0 (name ctor);
          k = SERVERS @ ''.'' @ suffix
      in case bind reg k of
           (Inl e, reg1) \<Rightarrow> (Inl e, reg1)
         | (Inr b, reg1) \<Rightarrow>
             (let b1 = asLifeCycleObserverBinding (tag (toClass b) SERVER_TAG)
              in (Inr b1, store b1 reg1)))"

text \<open>\<^verbatim>\<open>ctors.map(ctor => this.server(ctor))\<close>: the first registration that throws ends the map.\<close>

fun servers :: "Registry \<Rightarrow> Constructor list \<Rightarrow> Binding list Result" where
  "servers reg [] = (Inr [], reg)"
| "servers reg (ctor # ctors) =
     (case server reg ctor None of
        (Inl e, reg1) \<Rightarrow> (Inl e, reg1)
      | (Inr b, reg1) \<Rightarrow>
          (case servers reg1 ctors of
             (Inl e, reg2) \<Rightarrow> (Inl e, reg2)
           | (Inr bs, reg2) \<Rightarrow> (Inr (b # bs), reg2)))"

text \<open>
  Modelled from the spec: \<^verbatim>\<open>mountComponent\<close> (\<^verbatim>\<open>./component\<close>) is missing; for each
  controller, server and provider declared on the instance it delegates to the single-item
  registration: \<^verbatim>\<open>controller\<close>, \<^verbatim>\<open>server\<close>, and for a provider a binding of its key to the
  provider class.
\<close>

fun mountControllers :: "Registry \<Rightarrow> Constructor list \<Rightarrow> unit Result" where
  "mountControllers reg [] = (Inr (), reg)"
| "mountControllers reg (c # cs) =
     (case controller reg c None of
        (Inl e, reg1) \<Rightarrow> (Inl e, reg1)
      | (Inr b, reg1) \<Rightarrow> mountControllers reg1 cs)"

text \<open>
  Modelled from the spec: the part of \<^verbatim>\<open>mountComponent\<close> that registers the declared servers,
  each with \<^verbatim>\<open>server\<close>.
\<close>

fun mountServers :: "Registry \<Rightarrow> Constructor list \<Rightarrow> unit Result" where
  "mountServers reg [] = (Inr (), reg)"
| "mountServers reg (c # cs) =
     (case server reg c None of
        (Inl e, reg1) \<Rightarrow> (Inl e, reg1)
      | (Inr b, reg1) \<Rightarrow> mountServers reg1 cs)"

text \<open>
  Modelled from the spec: the single-item registration of a provider is missing; the provider
  class is bound under its key as a provider binding.
\<close>

definition provider :: "Registry \<Rightarrow> string \<times> Constructor \<Rightarrow> Binding Result" where
  "provider reg p =
     (case bind reg (fst p) of
        (Inl e, reg1) \<Rightarrow> (Inl e, reg1)
      | (Inr b, reg1) \<Rightarrow> (let b1 = toProvider b in (Inr b1, store b1 reg1)))"

text \<open>
  Modelled from the spec: the part of \<^verbatim>\<open>mountComponent\<close> that registers the declared
  providers.
\<close>

fun mountProviders :: "Registry \<Rightarrow> (string \<times> Constructor) list \<Rightarrow> unit Result" where
  "mountProviders reg [] = (Inr (), reg)"
| "mountProviders reg (p # ps) =
     (case provider reg p of
        (Inl e, reg1) \<Rightarrow> (Inl e, reg1)
      | (Inr b, reg1) \<Rightarrow> mountProviders reg1 ps)"

text \<open>
  Modelled from the spec: \<^verbatim>\<open>mountComponent\<close> registers the declared controllers, servers
  and providers of the instance, and fails with the first registration that fails.
\<close>

definition mountComponent :: "Registry \<Rightarrow> Component \<Rightarrow> unit Result" where
  "mountComponent reg component =
     (case mountControllers reg (componentControllers component) of
        (Inl e, reg1) \<Rightarrow> (Inl e, reg1)
      | (Inr u, reg1) \<Rightarrow>
          (case mountServers reg1 (componentServers component) of
             (Inl e, reg2) \<Rightarrow> (Inl e, reg2)
           | (Inr u, reg2) \<Rightarrow> mountProviders reg2 (componentProviders component)))"

text \<open>
  The keys of the bindings that mounting a component instance creates, in the order of their
  creation.
\<close>

definition artifactKeys :: "Component \<Rightarrow> string list" where
  "artifactKeys c =
     map (\<lambda>x. ''controllers.'' @ name x) (componentControllers c) @
     map (\<lambda>x. SERVERS @ ''.'' @ name x) (componentServers c) @
     map fst (componentProviders c)"

text \<open>
  \<^verbatim>\<open>Application.component\<close>. \<^verbatim>\<open>getSync\<close> of the key just bound to the component class
  instantiates the class.
\<close>

definition component :: "Registry \<Rightarrow> ComponentConstructor \<Rightarrow> string option \<Rightarrow> unit Result" where
  "component reg componentCtor name0 =
     (let name1 = or_default name0 (name componentCtor);
          componentKey = COMPONENTS @ ''.'' @ name1
      in case bind reg componentKey of
           (Inl e, reg1) \<Rightarrow> (Inl e, reg1)
         | (Inr b, reg1) \<Rightarrow>
             (let b1 = tag (inScope (toClass b) SINGLETON) COMPONENT_TAG;
                  binding = (if isLifeCycleObserverClass componentCtor
                             then asLifeCycleObserverBinding b1 else b1);
                  reg2 = store binding reg1
              in case instantiate componentCtor of
                   Inl e \<Rightarrow> (Inl e, reg2)
                 | Inr instance \<Rightarrow> mountComponent reg2 instance))"

section \<open>Schema migration\<close>

text \<open>
  \<^verbatim>\<open>examples/todo/src/migrate.ts\<close>. \<^verbatim>\<open>TodoListApplication\<close> is outside the source at
  hand: \<^verbatim>\<open>boot\<close> and \<^verbatim>\<open>migrateSchema\<close> complete or reject. The effects of \<^verbatim>\<open>migrate\<close>
  are recorded in order; \<open>MigrateSchema flag\<close> is the call of \<^verbatim>\<open>app.migrateSchema\<close> with the
  options object whose only property is \<open>flag\<close>.
\<close>

datatype Effect = Log string | Boot | MigrateSchema bool | Exit nat

record 'e TodoListApplication =
  boot :: "'e option"
  migrateSchema :: "bool \<Rightarrow> 'e option"

text \<open>The first version of \<^verbatim>\<open>migrate\<close>: the option is \<^verbatim>\<open>dropExistingSchema\<close>.\<close>

definition migrate :: "'e TodoListApplication \<Rightarrow> string list \<Rightarrow> 'e option \<times> Effect list" where
  "migrate app args =
     (let dropExistingSchema = ''--rebuild'' \<in> set args;
          line = ''Migrating schemas ('' @ (if dropExistingSchema then ''rebuild'' else ''update'')
                   @ '')''
      in case boot app of
           Some e \<Rightarrow> (Some e, [Log line, Boot])
         | None \<Rightarrow>
             (case migrateSchema app dropExistingSchema of
                Some e \<Rightarrow> (Some e, [Log line, Boot, MigrateSchema dropExistingSchema])
              | None \<Rightarrow> (None, [Log line, Boot, MigrateSchema dropExistingSchema, Exit 0])))"

text \<open>The second version: the option is \<^verbatim>\<open>rebuild\<close>, and the process is not exited.\<close>

definition migrate_rebuild ::
  "'e TodoListApplication \<Rightarrow> string list \<Rightarrow> 'e option \<times> Effect list" where
  "migrate_rebuild app args =
     (let rebuild = ''--rebuild'' \<in> set args;
          line = ''Migrating schemas ('' @ (if rebuild then ''rebuild'' else ''update'') @ '')''
      in case boot app of
           Some e \<Rightarrow> (Some e, [Log line, Boot])
         | None \<Rightarrow>
             (case migrateSchema app rebuild of
                Some e \<Rightarrow> (Some e, [Log line, Boot, MigrateSchema rebuild])
              | None \<Rightarrow> (None, [Log line, Boot, MigrateSchema rebuild])))"

text \<open>The schema migrations requested in a sequence of effects, each with its option.\<close>

fun requested :: "Effect list \<Rightarrow> bool list" where
  "requested [] = []"
| "requested (MigrateSchema flag # es) = flag # requested es"
| "requested (e # es) = requested es"

section \<open>The type guard of migrateable repositories\<close>

text \<open>
  \<^verbatim>\<open>packages/repository/src/repositories/migrateable.repository.ts\<close>. The argument is any
  JavaScript value. An object or a function is given by its properties, own and inherited.
\<close>

datatype JSValue =
    JSUndefined
  | JSNull
  | JSBoolean bool
  | JSNumber int
  | JSString string
  | JSFunction "(string \<times> JSValue) list"
  | JSObject "(string \<times> JSValue) list"

datatype JSError = TypeError

text \<open>
  \<^verbatim>\<open>value.name\<close>: reading a property of \<^verbatim>\<open>null\<close> or \<^verbatim>\<open>undefined\<close> throws a TypeError; a
  property that a value does not have is \<^verbatim>\<open>undefined\<close>; the prototypes of booleans, numbers
  and strings have no property \<^verbatim>\<open>migrateSchema\<close>.
\<close>

fun getProperty :: "JSValue \<Rightarrow> string \<Rightarrow> JSError + JSValue" where
  "getProperty JSUndefined n = Inl TypeError"
| "getProperty JSNull n = Inl TypeError"
| "getProperty (JSFunction ps) n = (case map_of ps n of None \<Rightarrow> Inr JSUndefined | Some v \<Rightarrow> Inr v)"
| "getProperty (JSObject ps) n = (case map_of ps n of None \<Rightarrow> Inr JSUndefined | Some v \<Rightarrow> Inr v)"
| "getProperty v n = Inr JSUndefined"

fun typeof :: "JSValue \<Rightarrow> string" where
  "typeof JSUndefined = ''undefined''"
| "typeof JSNull = ''object''"
| "typeof (JSBoolean b) = ''boolean''"
| "typeof (JSNumber n) = ''number''"
| "typeof (JSString s) = ''string''"
| "typeof (JSFunction ps) = ''function''"
| "typeof (JSObject ps) = ''object''"

definition isMigrateableRepository :: "JSValue \<Rightarrow> JSError + bool" where
  "isMigrateableRepository repo =
     (case getProperty repo ''migrateSchema'' of
        Inl e \<Rightarrow> Inl e
      | Inr v \<Rightarrow> Inr (typeof v = ''function''))"

section \<open>Scenarios\<close>

text \<open>
  The scenario of the specification: bindings A (singleton, tag lifecycle-observer, no server
  tag), B (singleton, tag server = "v1"), C (singleton, tag server = "v2") and D (transient,
  tag server = "v0"), registered in the order C, D, B, A.
\<close>

definition scenario_A :: Binding where
  "scenario_A = \<lparr>key = ''A'', type = Some CLASS, scope = SINGLETON,
                  tagMap = [LIFE_CYCLE_OBSERVER_TAG \<mapsto> LIFE_CYCLE_OBSERVER_TAG]\<rparr>"

definition scenario_B :: Binding where
  "scenario_B = \<lparr>key = ''B'', type = Some CLASS, scope = SINGLETON,
                  tagMap = [SERVER_TAG \<mapsto> ''v1'']\<rparr>"

definition scenario_C :: Binding where
  "scenario_C = \<lparr>key = ''C'', type = Some CLASS, scope = SINGLETON,
                  tagMap = [SERVER_TAG \<mapsto> ''v2'']\<rparr>"

definition scenario_D :: Binding where
  "scenario_D = \<lparr>key = ''D'', type = Some CLASS, scope = TRANSIENT,
                  tagMap = [SERVER_TAG \<mapsto> ''v0'']\<rparr>"

definition scenario_registry :: Registry where
  "scenario_registry = [scenario_C, scenario_D, scenario_B, scenario_A]"

text \<open>
  An environment for the scenario. The state is the list of the running observers; a key
  resolves to an instance named as the key; the instances in \<open>passive\<close> lack the life cycle
  capability; \<^verbatim>\<open>start\<close> and \<^verbatim>\<open>stop\<close> of the instances in \<open>failing\<close> reject.
\<close>

definition scenario_runtime ::
  "string list \<Rightarrow> string list \<Rightarrow> (string list, string, string) Runtime" where
  "scenario_runtime passive failing =
     \<lparr>get = (\<lambda>k s. (Inr k, s)),
      isLifeCycleObserver = (\<lambda>i. i \<notin> set passive),
      observer_start = (\<lambda>i s. if i \<in> set failing then (Some (''cannot start '' @ i), s)
                               else (None, s @ [i])),
      observer_stop = (\<lambda>i s. if i \<in> set failing then (Some (''cannot stop '' @ i), s)
                              else (None, removeAll i s))\<rparr>"

section \<open>Theorems\<close>

subsection \<open>The sort is the stable sort by server tag\<close>

lemma array_insert_insort:
  "array_insert compareBindings x xs = insort_key serverTag x xs"
  by (induction xs) (auto simp: compareBindings_def Let_def)

lemma array_sort_sort_key:
  "array_sort compareBindings xs = sort_key serverTag xs"
  by (induction xs) (simp_all add: array_sort_def array_insert_insort)

lemma findLifeCycleObserverBindings_sort_key:
  "findLifeCycleObserverBindings reg = sort_key serverTag (filter isLifeCycleObserverBinding reg)"
  by (simp add: findLifeCycleObserverBindings_def sortLifeCycleObserverBindings_def
      find_bindings_def array_sort_sort_key)



lemma isLifeCycleObserverBinding_iff:
  "isLifeCycleObserverBinding b \<longleftrightarrow>
     (type b = Some CONSTANT \<or> scope b = SINGLETON) \<and>
     (LIFE_CYCLE_OBSERVER_TAG \<in> dom (tagMap b) \<or>
      (\<exists>v. tagMap b SERVER_TAG = Some v \<and> v \<noteq> []))"
  by (auto simp: isLifeCycleObserverBinding_def not_nullish_def truthy_def split: option.splits)

lemma distinct_keys_found:
  "distinct (map key reg) \<Longrightarrow> distinct (map key (findLifeCycleObserverBindings reg))"
  by (simp add: findLifeCycleObserverBindings_sort_key distinct_map inj_on_def)

subsection \<open>The loop over the bindings\<close>

lemma notify_append:
  "notify rt m ev (xs @ ys) s =
     (case notify rt m ev xs s of
        (None, s1, tr1) \<Rightarrow>
          (case notify rt m ev ys s1 of (r, s2, tr2) \<Rightarrow> (r, s2, tr1 @ tr2))
      | (Some e, s1, tr1) \<Rightarrow> (Some e, s1, tr1))"
  by (induction xs arbitrary: s) (auto split: prod.splits sum.splits option.splits)

lemma resolved_append: "resolved (xs @ ys) = resolved xs @ resolved ys"
  by (induction xs rule: resolved.induct) auto

lemma invoked_append: "invoked (xs @ ys) = invoked xs @ invoked ys"
  by (induction xs rule: invoked.induct) auto

lemma notify_resolved_ok:
  assumes "ev = Start \<or> ev = Stop"
  shows "notify rt m ev bs s = (None, s', tr) \<Longrightarrow> resolved tr = map key bs"
  using assms
  by (induction bs arbitrary: s s' tr)
     (auto split: prod.splits sum.splits option.splits if_splits)

lemma notify_invoked_ok:
  assumes "ev = Start \<or> ev = Stop"
    and "\<And>k s i s'. get rt k s = (Inr i, s') \<Longrightarrow> isLifeCycleObserver rt i = cap k"
  shows "notify rt m ev bs s = (None, s', tr) \<Longrightarrow> invoked tr = filter cap (map key bs)"
  using assms
  by (induction bs arbitrary: s s' tr)
     (auto split: prod.splits sum.splits option.splits if_splits)


lemma notify_invoked_keys:
  assumes "ev = Start \<or> ev = Stop"
  shows "notify rt m ev bs s = (r, s', tr) \<Longrightarrow> set (invoked tr) \<subseteq> set (map key bs)"
  using assms
  by (induction bs arbitrary: s s' tr r)
     (fastforce split: prod.splits sum.splits option.splits if_splits)+

lemma notify_resolved_keys:
  assumes "ev = Start \<or> ev = Stop"
  shows "notify rt m ev bs s = (r, s', tr) \<Longrightarrow> set (resolved tr) \<subseteq> set (map key bs)"
  using assms
  by (induction bs arbitrary: s s' tr r)
     (fastforce split: prod.splits sum.splits option.splits if_splits)+

lemma notify_events:
  assumes "ev = Start \<or> ev = Stop"
  shows "notify rt m ev bs s = (r, s', tr) \<Longrightarrow> x \<in> set tr \<Longrightarrow> (\<exists>k. x = Get k \<or> x = ev k)"
  using assms
  by (induction bs arbitrary: s s' tr r)
     (fastforce split: prod.splits sum.splits option.splits if_splits)+

lemma notify_at:
  assumes "i < length bs"
    and "notify rt m ev (take i bs) s = (None, s0, tr0)"
    and "get rt (key (bs ! i)) s0 = (Inr obs, s1)"
  shows "notify rt m ev bs s =
     (if isLifeCycleObserver rt obs then
        (case m obs s1 of
           (Some e, s2) \<Rightarrow> (Some e, s2, tr0 @ [Get (key (bs ! i)), ev (key (bs ! i))])
         | (None, s2) \<Rightarrow>
             (case notify rt m ev (drop (Suc i) bs) s2 of
                (r, s3, tr) \<Rightarrow> (r, s3, tr0 @ Get (key (bs ! i)) # ev (key (bs ! i)) # tr)))
      else
        (case notify rt m ev (drop (Suc i) bs) s1 of
           (r, s3, tr) \<Rightarrow> (r, s3, tr0 @ Get (key (bs ! i)) # tr)))"
proof -
  have "bs = take i bs @ bs ! i # drop (Suc i) bs"
    using assms(1) by (simp add: id_take_nth_drop)
  then have "notify rt m ev bs s = notify rt m ev (take i bs @ bs ! i # drop (Suc i) bs) s"
    by simp
  also have "\<dots> = (case notify rt m ev (bs ! i # drop (Suc i) bs) s0 of
                      (r, s2, tr2) \<Rightarrow> (r, s2, tr0 @ tr2))"
    by (simp add: notify_append assms(2))
  finally show ?thesis
    using assms(3) by (auto split: prod.splits option.splits)
qed

lemma later_key_not_in_prefix:
  assumes "distinct (map key bs)" "i < j" "j < length bs"
  shows "key (bs ! j) \<notin> set (map key (take (Suc i) bs))"
proof
  assume "key (bs ! j) \<in> set (map key (take (Suc i) bs))"
  then obtain n where n: "n < Suc i" "key (bs ! n) = key (bs ! j)"
    by (auto simp: in_set_conv_nth)
  from n assms have len: "n < length (map key bs)" "j < length (map key bs)" by simp_all
  with n have "map key bs ! n = map key bs ! j" by simp
  with assms(1) len have "n = j" using nth_eq_iff_index_eq by blast
  with n assms show False by simp
qed

lemma notify_fail_fast:
  assumes ev: "ev = Start \<or> ev = Stop"
    and "i < length bs"
    and "notify rt m ev (take i bs) s = (None, s0, tr0)"
    and "get rt (key (bs ! i)) s0 = (Inr obs, s1)"
    and "isLifeCycleObserver rt obs"
    and "m obs s1 = (Some e, s2)"
  shows "notify rt m ev bs s = (Some e, s2, tr0 @ [Get (key (bs ! i)), ev (key (bs ! i))])"
    and "notify rt m ev bs s = notify rt m ev (take (Suc i) bs) s"
    and "resolved (tr0 @ [Get (key (bs ! i)), ev (key (bs ! i))]) = map key (take (Suc i) bs)"
    and "set (invoked (tr0 @ [Get (key (bs ! i)), ev (key (bs ! i))])) \<subseteq> set (map key (take (Suc i) bs))"
proof -
  show 1: "notify rt m ev bs s = (Some e, s2, tr0 @ [Get (key (bs ! i)), ev (key (bs ! i))])"
    using notify_at [OF assms(2,3,4)] assms(5,6) by simp
  have "i < length (take (Suc i) bs)" using assms(2) by simp
  from notify_at [OF this, of rt m ev s s0 tr0 obs s1] assms
  show 2: "notify rt m ev bs s = notify rt m ev (take (Suc i) bs) s"
    by (simp add: 1 min_def)
  have "resolved tr0 = map key (take i bs)"
    using notify_resolved_ok [OF ev assms(3)] .
  then show "resolved (tr0 @ [Get (key (bs ! i)), ev (key (bs ! i))]) = map key (take (Suc i) bs)"
    using ev assms(2) by (auto simp: resolved_append take_Suc_conv_app_nth)
  show "set (invoked (tr0 @ [Get (key (bs ! i)), ev (key (bs ! i))])) \<subseteq> set (map key (take (Suc i) bs))"
    using notify_invoked_keys [OF ev] 1 2 by metis
qed

lemma notify_fails_at:
  assumes ev: "ev = Start \<or> ev = Stop"
    and i: "i < length bs"
    and pre: "notify rt m ev (take i bs) s = (None, s0, tr0)"
    and res: "get rt (key (bs ! i)) s0 = (Inr obs, s1)"
    and cap: "isLifeCycleObserver rt obs"
    and fail: "m obs s1 = (Some e, s2)"
  shows "notify rt m ev bs s = (Some e, s2, tr0 @ [Get (key (bs ! i)), ev (key (bs ! i))])"
    and "notify rt m ev bs s = notify rt m ev (take (Suc i) bs) s"
    and "resolved (tr0 @ [Get (key (bs ! i)), ev (key (bs ! i))]) = map key (take (Suc i) bs)"
    and "(\<forall>k t j t'. get rt k t = (Inr j, t') \<longrightarrow> isLifeCycleObserver rt j = c k) \<longrightarrow>
            invoked tr0 = filter c (map key (take i bs))"
    and "\<forall>x\<in>set (tr0 @ [Get (key (bs ! i)), ev (key (bs ! i))]). \<exists>k. x = Get k \<or> x = ev k"
    and "distinct (map key bs) \<longrightarrow>
            (\<forall>j. i < j \<and> j < length bs \<longrightarrow>
               key (bs ! j) \<notin> set (resolved (tr0 @ [Get (key (bs ! i)), ev (key (bs ! i))])) \<and>
               key (bs ! j) \<notin> set (invoked (tr0 @ [Get (key (bs ! i)), ev (key (bs ! i))])))"
proof -
  let ?tr = "tr0 @ [Get (key (bs ! i)), ev (key (bs ! i))]"
  note ff = notify_fail_fast [OF ev i pre res cap fail]
  show "notify rt m ev bs s = (Some e, s2, ?tr)" by (rule ff(1))
  show "notify rt m ev bs s = notify rt m ev (take (Suc i) bs) s" by (rule ff(2))
  show "resolved ?tr = map key (take (Suc i) bs)" by (rule ff(3))
  show "(\<forall>k t j t'. get rt k t = (Inr j, t') \<longrightarrow> isLifeCycleObserver rt j = c k) \<longrightarrow>
            invoked tr0 = filter c (map key (take i bs))"
    using notify_invoked_ok [OF ev _ pre, of c] by blast
  show "\<forall>x\<in>set ?tr. \<exists>k. x = Get k \<or> x = ev k"
    using notify_events [OF ev ff(1)] by blast
  have later: "key (bs ! j) \<notin> set (resolved ?tr) \<and> key (bs ! j) \<notin> set (invoked ?tr)"
    if "distinct (map key bs)" "i < j" "j < length bs" for j
    using later_key_not_in_prefix [OF that] ff(3) ff(4) by auto
  then show "distinct (map key bs) \<longrightarrow>
            (\<forall>j. i < j \<and> j < length bs \<longrightarrow>
               key (bs ! j) \<notin> set (resolved ?tr) \<and> key (bs ! j) \<notin> set (invoked ?tr))"
    by blast
qed

lemma notify_all_passive:
  assumes ev: "ev = Start \<or> ev = Stop"
  shows "(\<forall>b\<in>set bs. \<forall>t. \<exists>j t'. get rt (key b) t = (Inr j, t') \<and> \<not> isLifeCycleObserver rt j) \<Longrightarrow>
         \<exists>s' tr. notify rt m ev bs s = (None, s', tr) \<and> invoked tr = [] \<and>
                 resolved tr = map key bs"
proof (induction bs arbitrary: s)
  case Nil
  show ?case by simp
next
  case (Cons b bs)
  from Cons.prems obtain j t' where b: "get rt (key b) s = (Inr j, t')" "\<not> isLifeCycleObserver rt j"
    by (meson list.set_intros(1))
  from Cons.prems have "\<forall>b\<in>set bs. \<forall>t. \<exists>j t'. get rt (key b) t = (Inr j, t') \<and> \<not> isLifeCycleObserver rt j"
    by simp
  from Cons.IH [OF this, of t'] obtain s' tr where
    "notify rt m ev bs t' = (None, s', tr)" "invoked tr = []" "resolved tr = map key bs"
    by blast
  with b show ?case by simp
qed

text \<open>A run of the scenario in which the instance of B lacks the capability.\<close>

lemma scenario_start:
  "start (scenario_runtime [''B''] []) scenario_registry [] =
     (None, [''A'', ''C''], [Get ''A'', Start ''A'', Get ''B'', Get ''C'', Start ''C''])"
  by (simp add: start_def findLifeCycleObserverBindings_def
      sortLifeCycleObserverBindings_def find_bindings_def array_sort_def compareBindings_def
      serverTag_def isLifeCycleObserverBinding_def truthy_def not_nullish_def
      SERVER_TAG_def LIFE_CYCLE_OBSERVER_TAG_def scenario_registry_def scenario_A_def
      scenario_B_def scenario_C_def scenario_D_def scenario_runtime_def)

lemma scenario_stop:
  "stop (scenario_runtime [''B''] []) scenario_registry [''A'', ''C''] =
     (None, [], [Get ''C'', Stop ''C'', Get ''B'', Get ''A'', Stop ''A''])"
  by (simp add: stop_def findLifeCycleObserverBindings_def
      sortLifeCycleObserverBindings_def find_bindings_def array_sort_def compareBindings_def
      serverTag_def isLifeCycleObserverBinding_def truthy_def not_nullish_def
      SERVER_TAG_def LIFE_CYCLE_OBSERVER_TAG_def scenario_registry_def scenario_A_def
      scenario_B_def scenario_C_def scenario_D_def scenario_runtime_def)

subsection \<open>Which bindings take part\<close>

text \<open>
  Claim C1 as stated fails on the code, twice. A singleton binding whose only tag is a server
  tag with the empty string satisfies the selection of the specification, and is not selected:
  the code tests the server tag for truthiness. A transient-scoped binding of constant type,
  tagged as a lifecycle observer, is selected: the code tests the type of the binding, not its
  scope, for being constant.
\<close>

theorem C1_counterexample:
  "spec_isLifeCycleObserverBinding
     \<lparr>key = ''servers.rest'', type = Some CLASS, scope = SINGLETON,
      tagMap = [SERVER_TAG \<mapsto> '''']\<rparr> \<and>
   findLifeCycleObserverBindings
     [\<lparr>key = ''servers.rest'', type = Some CLASS, scope = SINGLETON,
       tagMap = [SERVER_TAG \<mapsto> '''']\<rparr>] = [] \<and>
   scope \<lparr>key = ''cache'', type = Some CONSTANT, scope = TRANSIENT,
          tagMap = [LIFE_CYCLE_OBSERVER_TAG \<mapsto> LIFE_CYCLE_OBSERVER_TAG]\<rparr> = TRANSIENT \<and>
   findLifeCycleObserverBindings
     [\<lparr>key = ''cache'', type = Some CONSTANT, scope = TRANSIENT,
       tagMap = [LIFE_CYCLE_OBSERVER_TAG \<mapsto> LIFE_CYCLE_OBSERVER_TAG]\<rparr>] =
     [\<lparr>key = ''cache'', type = Some CONSTANT, scope = TRANSIENT,
       tagMap = [LIFE_CYCLE_OBSERVER_TAG \<mapsto> LIFE_CYCLE_OBSERVER_TAG]\<rparr>]"
  by (simp add: spec_isLifeCycleObserverBinding_def findLifeCycleObserverBindings_def
      sortLifeCycleObserverBindings_def find_bindings_def array_sort_def
      isLifeCycleObserverBinding_def truthy_def not_nullish_def
      SERVER_TAG_def LIFE_CYCLE_OBSERVER_TAG_def)

text \<open>
  Claim C1, amended: \<^verbatim>\<open>start\<close> and \<^verbatim>\<open>stop\<close> select exactly the bindings of the registry
  whose type is constant or whose scope is singleton, and whose tag map contains a
  "lifecycle-observer" tag or a "server" tag with a non-empty value. They resolve and invoke
  selected bindings only; in a registry with unique keys, a binding that is neither of constant
  type nor in singleton scope is never resolved or invoked by either operation, whatever its
  tags.
\<close>

theorem C1_selection:
  "set (findLifeCycleObserverBindings reg) =
     {b \<in> set reg.
        (type b = Some CONSTANT \<or> scope b = SINGLETON) \<and>
        (LIFE_CYCLE_OBSERVER_TAG \<in> dom (tagMap b) \<or>
         (\<exists>v. tagMap b SERVER_TAG = Some v \<and> v \<noteq> []))} \<and>
   set (resolved (snd (snd (start rt reg s)))) \<union> set (invoked (snd (snd (start rt reg s))))
     \<subseteq> key ` set (findLifeCycleObserverBindings reg) \<and>
   set (resolved (snd (snd (stop rt reg s)))) \<union> set (invoked (snd (snd (stop rt reg s))))
     \<subseteq> key ` set (findLifeCycleObserverBindings reg) \<and>
   (distinct (map key reg) \<and> b \<in> set reg \<and> type b \<noteq> Some CONSTANT \<and> scope b \<noteq> SINGLETON \<longrightarrow>
      key b \<notin> set (resolved (snd (snd (start rt reg s)))) \<union>
               set (invoked (snd (snd (start rt reg s)))) \<union>
               set (resolved (snd (snd (stop rt reg s)))) \<union>
               set (invoked (snd (snd (stop rt reg s)))))"
proof -
  let ?bs = "findLifeCycleObserverBindings reg"
  have sel: "set ?bs =
     {b \<in> set reg.
        (type b = Some CONSTANT \<or> scope b = SINGLETON) \<and>
        (LIFE_CYCLE_OBSERVER_TAG \<in> dom (tagMap b) \<or>
         (\<exists>v. tagMap b SERVER_TAG = Some v \<and> v \<noteq> []))}"
    unfolding findLifeCycleObserverBindings_sort_key
    using isLifeCycleObserverBinding_iff by auto
  obtain r1 s1 tr1 where st: "notify rt (observer_start rt) Start ?bs s = (r1, s1, tr1)"
    by (cases "notify rt (observer_start rt) Start ?bs s") auto
  obtain r2 s2 tr2 where sp: "notify rt (observer_stop rt) Stop (rev ?bs) s = (r2, s2, tr2)"
    by (cases "notify rt (observer_stop rt) Stop (rev ?bs) s") auto
  have a: "set (resolved tr1) \<union> set (invoked tr1) \<subseteq> key ` set ?bs"
    using notify_resolved_keys [OF _ st] notify_invoked_keys [OF _ st] by simp
  have b: "set (resolved tr2) \<union> set (invoked tr2) \<subseteq> key ` set ?bs"
    using notify_resolved_keys [OF _ sp] notify_invoked_keys [OF _ sp] by simp
  have c: "key b \<notin> key ` set ?bs"
    if "distinct (map key reg)" "b \<in> set reg" "type b \<noteq> Some CONSTANT" "scope b \<noteq> SINGLETON"
  proof
    assume "key b \<in> key ` set ?bs"
    then obtain b' where b': "b' \<in> set ?bs" "key b' = key b" by auto
    with sel have "b' \<in> set reg" by simp
    with that b' have "b' = b" by (meson distinct_map inj_on_def)
    with b' sel that show False by simp
  qed
  from sel a b c show ?thesis
    by (simp add: start_def stop_def st sp) blast
qed

text \<open>
  The scenario of the specification: \<^verbatim>\<open>start\<close> and \<^verbatim>\<open>stop\<close> skip binding D (transient,
  tag server = "v0") entirely.
\<close>

theorem C1_selection_witness:
  "distinct (map key scenario_registry) \<and> scenario_D \<in> set scenario_registry \<and>
   type scenario_D \<noteq> Some CONSTANT \<and> scope scenario_D \<noteq> SINGLETON \<and>
   key scenario_D \<notin>
     set (resolved (snd (snd (start (scenario_runtime [] []) scenario_registry [])))) \<union>
     set (invoked (snd (snd (start (scenario_runtime [] []) scenario_registry [])))) \<union>
     set (resolved (snd (snd (stop (scenario_runtime [] []) scenario_registry [])))) \<union>
     set (invoked (snd (snd (stop (scenario_runtime [] []) scenario_registry []))))"
  using C1_selection [of scenario_registry "scenario_runtime [] []" "[]" scenario_D]
  by (simp add: scenario_registry_def scenario_A_def scenario_B_def scenario_C_def scenario_D_def)

subsection \<open>The order of start and stop\<close>



text \<open>
  Claim C3: on one registry, when \<^verbatim>\<open>start\<close> and \<^verbatim>\<open>stop\<close> both complete, \<^verbatim>\<open>stop\<close>
  resolves the bindings in exactly the reverse of the order in which \<^verbatim>\<open>start\<close> resolved them;
  and when the capability of what a key resolves to does not change, the observers are stopped
  in exactly the reverse of the order in which they were started.
\<close>

theorem C3_stop_reverses_start:
  assumes "start rt reg s = (None, s1, tr1)"
    and "stop rt reg s' = (None, s2, tr2)"
  shows "resolved tr1 = map key (findLifeCycleObserverBindings reg) \<and>
         resolved tr2 = rev (resolved tr1) \<and>
         ((\<forall>k t i t'. get rt k t = (Inr i, t') \<longrightarrow> isLifeCycleObserver rt i = cap k) \<longrightarrow>
            invoked tr2 = rev (invoked tr1))"
proof -
  let ?bs = "findLifeCycleObserverBindings reg"
  have st: "notify rt (observer_start rt) Start ?bs s = (None, s1, tr1)"
    using assms(1) by (simp add: start_def)
  have sp: "notify rt (observer_stop rt) Stop (rev ?bs) s' = (None, s2, tr2)"
    using assms(2) by (simp add: stop_def)
  have r1: "resolved tr1 = map key ?bs"
    using notify_resolved_ok [OF _ st] by simp
  have r2: "resolved tr2 = map key (rev ?bs)"
    using notify_resolved_ok [OF _ sp] by simp
  have inv: "invoked tr2 = rev (invoked tr1)"
    if "\<forall>k t i t'. get rt k t = (Inr i, t') \<longrightarrow> isLifeCycleObserver rt i = cap k"
  proof -
    from that have c: "\<And>k t i t'. get rt k t = (Inr i, t') \<Longrightarrow> isLifeCycleObserver rt i = cap k"
      by blast
    have "invoked tr1 = filter cap (map key ?bs)"
      using notify_invoked_ok [OF _ c st] by simp
    moreover have "invoked tr2 = filter cap (map key (rev ?bs))"
      using notify_invoked_ok [OF _ c sp] by simp
    ultimately show ?thesis by (simp add: rev_map rev_filter)
  qed
  from r1 r2 inv show ?thesis by (simp add: rev_map)
qed

text \<open>In that run \<^verbatim>\<open>start\<close> starts A, then C, and \<^verbatim>\<open>stop\<close> stops C, then A.\<close>

theorem C3_stop_reverses_start_witness:
  "start (scenario_runtime [''B''] []) scenario_registry [] =
     (None, [''A'', ''C''], [Get ''A'', Start ''A'', Get ''B'', Get ''C'', Start ''C'']) \<and>
   stop (scenario_runtime [''B''] []) scenario_registry [''A'', ''C''] =
     (None, [], [Get ''C'', Stop ''C'', Get ''B'', Get ''A'', Stop ''A'']) \<and>
   resolved [Get ''C'', Stop ''C'', Get ''B'', Get ''A'', Stop ''A''] =
     rev (resolved [Get ''A'', Start ''A'', Get ''B'', Get ''C'', Start ''C'']) \<and>
   invoked [Get ''C'', Stop ''C'', Get ''B'', Get ''A'', Stop ''A''] =
     rev (invoked [Get ''A'', Start ''A'', Get ''B'', Get ''C'', Start ''C''])"
proof -
  have cap: "\<forall>k t i t'. get (scenario_runtime [''B''] []) k t = (Inr i, t') \<longrightarrow>
      isLifeCycleObserver (scenario_runtime [''B''] []) i = (k \<noteq> ''B'')"
    by (auto simp: scenario_runtime_def)
  from C3_stop_reverses_start [OF scenario_start scenario_stop, of "\<lambda>k. k \<noteq> ''B''"] cap
  have "resolved [Get ''C'', Stop ''C'', Get ''B'', Get ''A'', Stop ''A''] =
          rev (resolved [Get ''A'', Start ''A'', Get ''B'', Get ''C'', Start ''C''])"
    and "invoked [Get ''C'', Stop ''C'', Get ''B'', Get ''A'', Stop ''A''] =
          rev (invoked [Get ''A'', Start ''A'', Get ''B'', Get ''C'', Start ''C''])"
    by blast+
  with scenario_start scenario_stop show ?thesis
    by blast
qed

subsection \<open>Failure and capability\<close>

text \<open>
  Claim C4: let the observers before position \<open>i\<close> of the sorted sequence have been gone
  through without failure, and let the observer at position \<open>i\<close> reject its \<^verbatim>\<open>start\<close> with
  \<open>e\<close>. Then \<^verbatim>\<open>start\<close> rejects with \<open>e\<close> itself; the calls made are those of the positions
  before \<open>i\<close> followed by the resolution and the invocation of position \<open>i\<close>, as if the
  sequence ended there: the bindings at positions \<open>0..i\<close> are exactly the resolved ones, the
  observers before \<open>i\<close> have been started, no binding after \<open>i\<close> is resolved or invoked, and
  nothing is stopped (the state is the one the failing call left). \<^verbatim>\<open>stop\<close> has the same
  property on the reversed sequence.
\<close>

theorem C4_fail_fast:
  "(let bs = findLifeCycleObserverBindings reg; k = key (bs ! i); tr = tr0 @ [Get k, Start k] in
      i < length bs \<and>
      notify rt (observer_start rt) Start (take i bs) s = (None, s0, tr0) \<and>
      get rt k s0 = (Inr obs, s1) \<and> isLifeCycleObserver rt obs \<and>
      observer_start rt obs s1 = (Some e, s2) \<longrightarrow>
        start rt reg s = (Some e, s2, tr) \<and>
        start rt reg s = notify rt (observer_start rt) Start (take (Suc i) bs) s \<and>
        resolved tr = map key (take (Suc i) bs) \<and>
        ((\<forall>k t j t'. get rt k t = (Inr j, t') \<longrightarrow> isLifeCycleObserver rt j = c k) \<longrightarrow>
           invoked tr0 = filter c (map key (take i bs))) \<and>
        (\<forall>x. Stop x \<notin> set tr) \<and>
        (distinct (map key reg) \<longrightarrow>
           (\<forall>j. i < j \<and> j < length bs \<longrightarrow>
              key (bs ! j) \<notin> set (resolved tr) \<and> key (bs ! j) \<notin> set (invoked tr)))) \<and>
   (let bs = rev (findLifeCycleObserverBindings reg); k = key (bs ! i'); tr = tr0' @ [Get k, Stop k] in
      i' < length bs \<and>
      notify rt (observer_stop rt) Stop (take i' bs) s' = (None, s0', tr0') \<and>
      get rt k s0' = (Inr obs', s1') \<and> isLifeCycleObserver rt obs' \<and>
      observer_stop rt obs' s1' = (Some e', s2') \<longrightarrow>
        stop rt reg s' = (Some e', s2', tr) \<and>
        stop rt reg s' = notify rt (observer_stop rt) Stop (take (Suc i') bs) s' \<and>
        resolved tr = map key (take (Suc i') bs) \<and>
        ((\<forall>k t j t'. get rt k t = (Inr j, t') \<longrightarrow> isLifeCycleObserver rt j = c k) \<longrightarrow>
           invoked tr0' = filter c (map key (take i' bs))) \<and>
        (\<forall>x. Start x \<notin> set tr) \<and>
        (distinct (map key reg) \<longrightarrow>
           (\<forall>j. i' < j \<and> j < length bs \<longrightarrow>
              key (bs ! j) \<notin> set (resolved tr) \<and> key (bs ! j) \<notin> set (invoked tr))))"
proof -
  let ?bs = "findLifeCycleObserverBindings reg"
  have d: "distinct (map key reg) \<Longrightarrow> distinct (map key ?bs) \<and> distinct (map key (rev ?bs))"
    using distinct_keys_found [of reg] distinct_rev [of "map key ?bs"]
    by (simp only: rev_map)
  have start_part:
    "start rt reg s = (Some e, s2, tr0 @ [Get (key (?bs ! i)), Start (key (?bs ! i))]) \<and>
     start rt reg s = notify rt (observer_start rt) Start (take (Suc i) ?bs) s \<and>
     resolved (tr0 @ [Get (key (?bs ! i)), Start (key (?bs ! i))]) = map key (take (Suc i) ?bs) \<and>
     ((\<forall>k t j t'. get rt k t = (Inr j, t') \<longrightarrow> isLifeCycleObserver rt j = c k) \<longrightarrow>
        invoked tr0 = filter c (map key (take i ?bs))) \<and>
     (\<forall>x. Stop x \<notin> set (tr0 @ [Get (key (?bs ! i)), Start (key (?bs ! i))])) \<and>
     (distinct (map key reg) \<longrightarrow>
        (\<forall>j. i < j \<and> j < length ?bs \<longrightarrow>
           key (?bs ! j) \<notin> set (resolved (tr0 @ [Get (key (?bs ! i)), Start (key (?bs ! i))])) \<and>
           key (?bs ! j) \<notin> set (invoked (tr0 @ [Get (key (?bs ! i)), Start (key (?bs ! i))]))))"
    if h: "i < length ?bs"
      "notify rt (observer_start rt) Start (take i ?bs) s = (None, s0, tr0)"
      "get rt (key (?bs ! i)) s0 = (Inr obs, s1)" "isLifeCycleObserver rt obs"
      "observer_start rt obs s1 = (Some e, s2)"
  proof -
    let ?tr = "tr0 @ [Get (key (?bs ! i)), Start (key (?bs ! i))]"
    note f = notify_fails_at [where ev = Start, OF _ h]
    from f(1) have 1: "start rt reg s = (Some e, s2, ?tr)"
      by (simp add: start_def)
    from f(1,2) have 2: "start rt reg s = notify rt (observer_start rt) Start (take (Suc i) ?bs) s"
      by (simp add: start_def)
    from f(3) have 3: "resolved ?tr = map key (take (Suc i) ?bs)"
      by blast
    from f(4) [where c = c] have 4: "(\<forall>k t j t'. get rt k t = (Inr j, t') \<longrightarrow> isLifeCycleObserver rt j = c k) \<longrightarrow>
        invoked tr0 = filter c (map key (take i ?bs))"
      by blast
    from f(5) have "\<forall>x\<in>set ?tr. \<exists>k. x = Get k \<or> x = Start k"
      by blast
    then have 5: "\<forall>x. Stop x \<notin> set ?tr"
      by fastforce
    from f(6) d have 6: "distinct (map key reg) \<longrightarrow>
        (\<forall>j. i < j \<and> j < length ?bs \<longrightarrow>
           key (?bs ! j) \<notin> set (resolved ?tr) \<and> key (?bs ! j) \<notin> set (invoked ?tr))"
      by blast
    from 1 2 3 4 5 6 show ?thesis by blast
  qed
  let ?sb = "rev ?bs"
  have stop_part:
    "stop rt reg s' = (Some e', s2', tr0' @ [Get (key (?sb ! i')), Stop (key (?sb ! i'))]) \<and>
     stop rt reg s' = notify rt (observer_stop rt) Stop (take (Suc i') ?sb) s' \<and>
     resolved (tr0' @ [Get (key (?sb ! i')), Stop (key (?sb ! i'))]) = map key (take (Suc i') ?sb) \<and>
     ((\<forall>k t j t'. get rt k t = (Inr j, t') \<longrightarrow> isLifeCycleObserver rt j = c k) \<longrightarrow>
        invoked tr0' = filter c (map key (take i' ?sb))) \<and>
     (\<forall>x. Start x \<notin> set (tr0' @ [Get (key (?sb ! i')), Stop (key (?sb ! i'))])) \<and>
     (distinct (map key reg) \<longrightarrow>
        (\<forall>j. i' < j \<and> j < length ?sb \<longrightarrow>
           key (?sb ! j) \<notin> set (resolved (tr0' @ [Get (key (?sb ! i')), Stop (key (?sb ! i'))])) \<and>
           key (?sb ! j) \<notin> set (invoked (tr0' @ [Get (key (?sb ! i')), Stop (key (?sb ! i'))]))))"
    if h: "i' < length ?sb"
      "notify rt (observer_stop rt) Stop (take i' ?sb) s' = (None, s0', tr0')"
      "get rt (key (?sb ! i')) s0' = (Inr obs', s1')" "isLifeCycleObserver rt obs'"
      "observer_stop rt obs' s1' = (Some e', s2')"
  proof -
    let ?tr = "tr0' @ [Get (key (?sb ! i')), Stop (key (?sb ! i'))]"
    note f = notify_fails_at [where ev = Stop, OF _ h]
    from f(1) have 1: "stop rt reg s' = (Some e', s2', ?tr)"
      by (simp add: stop_def)
    from f(1,2) have 2: "stop rt reg s' = notify rt (observer_stop rt) Stop (take (Suc i') ?sb) s'"
      by (simp add: stop_def)
    from f(3) have 3: "resolved ?tr = map key (take (Suc i') ?sb)"
      by blast
    from f(4) [where c = c] have 4: "(\<forall>k t j t'. get rt k t = (Inr j, t') \<longrightarrow> isLifeCycleObserver rt j = c k) \<longrightarrow>
        invoked tr0' = filter c (map key (take i' ?sb))"
      by blast
    from f(5) have "\<forall>x\<in>set ?tr. \<exists>k. x = Get k \<or> x = Stop k"
      by blast
    then have 5: "\<forall>x. Start x \<notin> set ?tr"
      by fastforce
    from f(6) d have 6: "distinct (map key reg) \<longrightarrow>
        (\<forall>j. i' < j \<and> j < length ?sb \<longrightarrow>
           key (?sb ! j) \<notin> set (resolved ?tr) \<and> key (?sb ! j) \<notin> set (invoked ?tr))"
      by blast
    from 1 2 3 4 5 6 show ?thesis by blast
  qed
  from start_part stop_part show ?thesis
    unfolding Let_def by blast
qed

text \<open>
  The scenario with a failing B: \<^verbatim>\<open>start\<close> starts A, fails at B and leaves C alone;
  \<^verbatim>\<open>stop\<close> stops C, fails at B and leaves A running.
\<close>

theorem C4_fail_fast_witness:
  "findLifeCycleObserverBindings scenario_registry = [scenario_A, scenario_B, scenario_C] \<and>
   notify (scenario_runtime [] [''B'']) (observer_start (scenario_runtime [] [''B''])) Start
     [scenario_A] [] = (None, [''A''], [Get ''A'', Start ''A'']) \<and>
   get (scenario_runtime [] [''B'']) ''B'' [''A''] = (Inr ''B'', [''A'']) \<and>
   isLifeCycleObserver (scenario_runtime [] [''B'']) ''B'' \<and>
   observer_start (scenario_runtime [] [''B'']) ''B'' [''A''] = (Some ''cannot start B'', [''A'']) \<and>
   start (scenario_runtime [] [''B'']) scenario_registry [] =
     (Some ''cannot start B'', [''A''], [Get ''A'', Start ''A'', Get ''B'', Start ''B'']) \<and>
   notify (scenario_runtime [] [''B'']) (observer_stop (scenario_runtime [] [''B''])) Stop
     [scenario_C] [''A'', ''B'', ''C''] = (None, [''A'', ''B''], [Get ''C'', Stop ''C'']) \<and>
   observer_stop (scenario_runtime [] [''B'']) ''B'' [''A'', ''B''] =
     (Some ''cannot stop B'', [''A'', ''B'']) \<and>
   stop (scenario_runtime [] [''B'']) scenario_registry [''A'', ''B'', ''C''] =
     (Some ''cannot stop B'', [''A'', ''B''], [Get ''C'', Stop ''C'', Get ''B'', Stop ''B''])"
  using C4_fail_fast [where reg = scenario_registry and rt = "scenario_runtime [] [''B'']"
      and i = 1 and s = "[]" and ?s0.0 = "[''A'']" and ?tr0.0 = "[Get ''A'', Start ''A'']"
      and obs = "''B''" and ?s1.0 = "[''A'']" and e = "''cannot start B''" and ?s2.0 = "[''A'']"
      and c = "\<lambda>k. True"
      and i' = 1 and s' = "[''A'', ''B'', ''C'']" and s0' = "[''A'', ''B'']"
      and tr0' = "[Get ''C'', Stop ''C'']" and obs' = "''B''" and s1' = "[''A'', ''B'']"
      and e' = "''cannot stop B''" and s2' = "[''A'', ''B'']"]
  by (simp add: Let_def start_def stop_def findLifeCycleObserverBindings_def
      sortLifeCycleObserverBindings_def find_bindings_def array_sort_def compareBindings_def
      serverTag_def isLifeCycleObserverBinding_def truthy_def not_nullish_def
      SERVER_TAG_def LIFE_CYCLE_OBSERVER_TAG_def scenario_registry_def scenario_A_def
      scenario_B_def scenario_C_def scenario_D_def scenario_runtime_def)

text \<open>
  Claim C5: let the bindings before position \<open>i\<close> of the sorted sequence have been gone through
  without failure, and let the binding at position \<open>i\<close> resolve to an instance. When the
  instance lacks the life cycle capability, nothing is invoked on it and no error arises from
  it: \<^verbatim>\<open>start\<close> goes on with the next binding in the state the resolution left. When the
  instance has the capability and its \<^verbatim>\<open>start\<close> completes, \<^verbatim>\<open>start\<close> goes on with the next
  binding in the state that call left, the resolution and the invocation coming before every
  later call. \<^verbatim>\<open>stop\<close> does the same on the reversed sequence. When no selected binding
  resolves to an instance with the capability, \<^verbatim>\<open>start\<close> and \<^verbatim>\<open>stop\<close> complete without
  error and without invoking anything.
\<close>

theorem C5_capability_tested:
  "(let bs = findLifeCycleObserverBindings reg; k = key (bs ! i) in
      i < length bs \<and>
      notify rt (observer_start rt) Start (take i bs) s = (None, s0, tr0) \<and>
      get rt k s0 = (Inr obs, s1) \<longrightarrow>
        (\<not> isLifeCycleObserver rt obs \<longrightarrow>
           start rt reg s =
             (case notify rt (observer_start rt) Start (drop (Suc i) bs) s1 of
                (r, s3, tr) \<Rightarrow> (r, s3, tr0 @ Get k # tr))) \<and>
        (isLifeCycleObserver rt obs \<and> observer_start rt obs s1 = (None, s2) \<longrightarrow>
           start rt reg s =
             (case notify rt (observer_start rt) Start (drop (Suc i) bs) s2 of
                (r, s3, tr) \<Rightarrow> (r, s3, tr0 @ Get k # Start k # tr)))) \<and>
   (let bs = rev (findLifeCycleObserverBindings reg); k = key (bs ! i') in
      i' < length bs \<and>
      notify rt (observer_stop rt) Stop (take i' bs) s' = (None, s0', tr0') \<and>
      get rt k s0' = (Inr obs', s1') \<longrightarrow>
        (\<not> isLifeCycleObserver rt obs' \<longrightarrow>
           stop rt reg s' =
             (case notify rt (observer_stop rt) Stop (drop (Suc i') bs) s1' of
                (r, s3, tr) \<Rightarrow> (r, s3, tr0' @ Get k # tr))) \<and>
        (isLifeCycleObserver rt obs' \<and> observer_stop rt obs' s1' = (None, s2') \<longrightarrow>
           stop rt reg s' =
             (case notify rt (observer_stop rt) Stop (drop (Suc i') bs) s2' of
                (r, s3, tr) \<Rightarrow> (r, s3, tr0' @ Get k # Stop k # tr)))) \<and>
   ((\<forall>b\<in>set (findLifeCycleObserverBindings reg). \<forall>t. \<exists>j t'.
        get rt (key b) t = (Inr j, t') \<and> \<not> isLifeCycleObserver rt j) \<longrightarrow>
      fst (start rt reg s) = None \<and> invoked (snd (snd (start rt reg s))) = [] \<and>
      fst (stop rt reg s') = None \<and> invoked (snd (snd (stop rt reg s'))) = [])"
proof -
  let ?bs = "findLifeCycleObserverBindings reg"
  let ?sb = "rev ?bs"
  have start_part:
    "(\<not> isLifeCycleObserver rt obs \<longrightarrow>
        start rt reg s =
          (case notify rt (observer_start rt) Start (drop (Suc i) ?bs) s1 of
             (r, s3, tr) \<Rightarrow> (r, s3, tr0 @ Get (key (?bs ! i)) # tr))) \<and>
     (isLifeCycleObserver rt obs \<and> observer_start rt obs s1 = (None, s2) \<longrightarrow>
        start rt reg s =
          (case notify rt (observer_start rt) Start (drop (Suc i) ?bs) s2 of
             (r, s3, tr) \<Rightarrow> (r, s3, tr0 @ Get (key (?bs ! i)) # Start (key (?bs ! i)) # tr)))"
    if h: "i < length ?bs"
      "notify rt (observer_start rt) Start (take i ?bs) s = (None, s0, tr0)"
      "get rt (key (?bs ! i)) s0 = (Inr obs, s1)"
    using notify_at [OF h] by (simp add: start_def)
  have stop_part:
    "(\<not> isLifeCycleObserver rt obs' \<longrightarrow>
        stop rt reg s' =
          (case notify rt (observer_stop rt) Stop (drop (Suc i') ?sb) s1' of
             (r, s3, tr) \<Rightarrow> (r, s3, tr0' @ Get (key (?sb ! i')) # tr))) \<and>
     (isLifeCycleObserver rt obs' \<and> observer_stop rt obs' s1' = (None, s2') \<longrightarrow>
        stop rt reg s' =
          (case notify rt (observer_stop rt) Stop (drop (Suc i') ?sb) s2' of
             (r, s3, tr) \<Rightarrow> (r, s3, tr0' @ Get (key (?sb ! i')) # Stop (key (?sb ! i')) # tr)))"
    if h: "i' < length ?sb"
      "notify rt (observer_stop rt) Stop (take i' ?sb) s' = (None, s0', tr0')"
      "get rt (key (?sb ! i')) s0' = (Inr obs', s1')"
    using notify_at [OF h] by (simp add: stop_def)
  have none_capable:
    "fst (start rt reg s) = None \<and> invoked (snd (snd (start rt reg s))) = [] \<and>
     fst (stop rt reg s') = None \<and> invoked (snd (snd (stop rt reg s'))) = []"
    if p: "\<forall>b\<in>set ?bs. \<forall>t. \<exists>j t'. get rt (key b) t = (Inr j, t') \<and> \<not> isLifeCycleObserver rt j"
  proof -
    from p have q: "\<forall>b\<in>set ?sb. \<forall>t. \<exists>j t'. get rt (key b) t = (Inr j, t') \<and> \<not> isLifeCycleObserver rt j"
      by simp
    from notify_all_passive [where ev = Start, OF _ p, of "observer_start rt" s]
    obtain a ta where "notify rt (observer_start rt) Start ?bs s = (None, a, ta)" "invoked ta = []"
      by blast
    moreover from notify_all_passive [where ev = Stop, OF _ q, of "observer_stop rt" s']
    obtain b tb where "notify rt (observer_stop rt) Stop ?sb s' = (None, b, tb)" "invoked tb = []"
      by blast
    ultimately show ?thesis by (simp add: start_def stop_def)
  qed
  from start_part stop_part none_capable show ?thesis
    unfolding Let_def by blast
qed

text \<open>
  The scenario with an instance of B that lacks the capability: \<^verbatim>\<open>start\<close> resolves B, skips it
  and goes on to C; \<^verbatim>\<open>stop\<close> stops C first and goes on. With no capable instance at all,
  \<^verbatim>\<open>start\<close> completes and invokes nothing.
\<close>

theorem C5_capability_tested_witness:
  "notify (scenario_runtime [''B''] []) (observer_start (scenario_runtime [''B''] [])) Start
     [scenario_A] [] = (None, [''A''], [Get ''A'', Start ''A'']) \<and>
   get (scenario_runtime [''B''] []) ''B'' [''A''] = (Inr ''B'', [''A'']) \<and>
   \<not> isLifeCycleObserver (scenario_runtime [''B''] []) ''B'' \<and>
   start (scenario_runtime [''B''] []) scenario_registry [] =
     (None, [''A'', ''C''], [Get ''A'', Start ''A'', Get ''B'', Get ''C'', Start ''C'']) \<and>
   get (scenario_runtime [''B''] []) ''C'' [''A'', ''C''] = (Inr ''C'', [''A'', ''C'']) \<and>
   isLifeCycleObserver (scenario_runtime [''B''] []) ''C'' \<and>
   observer_stop (scenario_runtime [''B''] []) ''C'' [''A'', ''C''] = (None, [''A'']) \<and>
   stop (scenario_runtime [''B''] []) scenario_registry [''A'', ''C''] =
     (None, [], [Get ''C'', Stop ''C'', Get ''B'', Get ''A'', Stop ''A'']) \<and>
   start (scenario_runtime [''A'', ''B'', ''C''] []) scenario_registry [] =
     (None, [], [Get ''A'', Get ''B'', Get ''C''])"
  using C5_capability_tested [where reg = scenario_registry
      and rt = "scenario_runtime [''B''] []"
      and i = 1 and s = "[]" and ?s0.0 = "[''A'']" and ?tr0.0 = "[Get ''A'', Start ''A'']"
      and obs = "''B''" and ?s1.0 = "[''A'']" and ?s2.0 = "[''A'']"
      and i' = 0 and s' = "[''A'', ''C'']" and s0' = "[''A'', ''C'']"
      and tr0' = "[]" and obs' = "''C''" and s1' = "[''A'', ''C'']" and s2' = "[''A'']"]
    C5_capability_tested [where reg = scenario_registry
      and rt = "scenario_runtime [''A'', ''B'', ''C''] []"
      and i = 0 and s = "[]" and ?s0.0 = "[]" and ?tr0.0 = "[]"
      and obs = "''A''" and ?s1.0 = "[]" and ?s2.0 = "[]"
      and i' = 0 and s' = "[]" and s0' = "[]"
      and tr0' = "[]" and obs' = "''C''" and s1' = "[]" and s2' = "[]"]
  by (simp add: Let_def start_def stop_def findLifeCycleObserverBindings_def
      sortLifeCycleObserverBindings_def find_bindings_def array_sort_def compareBindings_def
      serverTag_def isLifeCycleObserverBinding_def truthy_def not_nullish_def
      SERVER_TAG_def LIFE_CYCLE_OBSERVER_TAG_def scenario_registry_def scenario_A_def
      scenario_B_def scenario_C_def scenario_D_def scenario_runtime_def)

subsection \<open>Registering into the registry\<close>

lemma store_new:
  "key b = k \<Longrightarrow> k \<notin> set (map key reg) \<Longrightarrow> key b0 = k \<Longrightarrow> store b (reg @ [b0]) = reg @ [b]"
proof -
  assume a: "key b = k" "k \<notin> set (map key reg)" "key b0 = k"
  have "map (\<lambda>x. if key x = key b then b else x) reg = reg"
  proof (rule map_idI)
    fix x assume "x \<in> set reg"
    then have "key x \<in> set (map key reg)" by simp
    with a have "key x \<noteq> key b" by metis
    then show "(if key x = key b then b else x) = x" by simp
  qed
  with a show ?thesis by (simp add: store_def)
qed

lemma bind_duplicate:
  "k \<in> set (map key reg) \<Longrightarrow> bind reg k = (Inl (DuplicateKey k), reg)"
  by (simp add: bind_def)

lemma bind_new:
  "k \<notin> set (map key reg) \<Longrightarrow>
   bind reg k = (Inr \<lparr>key = k, type = None, scope = TRANSIENT, tagMap = Map.empty\<rparr>,
                 reg @ [\<lparr>key = k, type = None, scope = TRANSIENT, tagMap = Map.empty\<rparr>])"
  by (simp add: bind_def Let_def)

lemma key_builders [simp]:
  "key (toClass b) = key b" "key (toProvider b) = key b" "key (inScope b sc) = key b"
  "key (tag b t) = key b" "key (asLifeCycleObserverBinding b) = key b"
  by (simp_all add: toClass_def toProvider_def inScope_def tag_def asLifeCycleObserverBinding_def)

lemma server_duplicate:
  "SERVERS @ ''.'' @ or_default n (name ctor) \<in> set (map key reg) \<Longrightarrow>
   server reg ctor n = (Inl (DuplicateKey (SERVERS @ ''.'' @ or_default n (name ctor))), reg)"
  by (simp add: server_def Let_def bind_duplicate)

lemma server_new:
  assumes "SERVERS @ ''.'' @ or_default n (name ctor) \<notin> set (map key reg)"
  shows "server reg ctor n =
     (Inr (asLifeCycleObserverBinding (tag (toClass
            \<lparr>key = SERVERS @ ''.'' @ or_default n (name ctor), type = None, scope = TRANSIENT,
             tagMap = Map.empty\<rparr>) SERVER_TAG)),
      reg @ [asLifeCycleObserverBinding (tag (toClass
            \<lparr>key = SERVERS @ ''.'' @ or_default n (name ctor), type = None, scope = TRANSIENT,
             tagMap = Map.empty\<rparr>) SERVER_TAG)])"
  using assms by (simp add: server_def Let_def bind_new store_new)

lemma server_success:
  "server reg ctor n = (Inr b, reg') \<Longrightarrow> reg' = reg @ [b]"
proof (cases "SERVERS @ ''.'' @ or_default n (name ctor) \<in> set (map key reg)")
  case True
  assume "server reg ctor n = (Inr b, reg')"
  with server_duplicate [OF True] show ?thesis by simp
next
  case False
  assume "server reg ctor n = (Inr b, reg')"
  with server_new [OF False] show ?thesis by simp
qed

lemma controller_duplicate:
  "''controllers.'' @ or_default n (name ctor) \<in> set (map key reg) \<Longrightarrow>
   controller reg ctor n =
     (Inl (DuplicateKey (''controllers.'' @ or_default n (name ctor))), reg)"
  by (simp add: controller_def Let_def bind_duplicate)

lemma controller_new:
  assumes "''controllers.'' @ or_default n (name ctor) \<notin> set (map key reg)"
  shows "controller reg ctor n =
     (Inr (tag (toClass
            \<lparr>key = ''controllers.'' @ or_default n (name ctor), type = None, scope = TRANSIENT,
             tagMap = Map.empty\<rparr>) CONTROLLER_TAG),
      reg @ [tag (toClass
            \<lparr>key = ''controllers.'' @ or_default n (name ctor), type = None, scope = TRANSIENT,
             tagMap = Map.empty\<rparr>) CONTROLLER_TAG])"
  using assms by (simp add: controller_def Let_def bind_new store_new)

lemma provider_duplicate:
  "fst p \<in> set (map key reg) \<Longrightarrow> provider reg p = (Inl (DuplicateKey (fst p)), reg)"
  by (simp add: provider_def bind_duplicate)

lemma provider_new:
  assumes "fst p \<notin> set (map key reg)"
  shows "provider reg p =
     (Inr (toProvider \<lparr>key = fst p, type = None, scope = TRANSIENT, tagMap = Map.empty\<rparr>),
      reg @ [toProvider \<lparr>key = fst p, type = None, scope = TRANSIENT, tagMap = Map.empty\<rparr>])"
  using assms by (simp add: provider_def Let_def bind_new store_new)

lemma servers_ok:
  "distinct (map (\<lambda>c. SERVERS @ ''.'' @ name c) ctors) \<Longrightarrow>
   set (map (\<lambda>c. SERVERS @ ''.'' @ name c) ctors) \<inter> set (map key reg) = {} \<Longrightarrow>
   \<exists>bs. servers reg ctors = (Inr bs, reg @ bs) \<and>
        map key bs = map (\<lambda>c. SERVERS @ ''.'' @ name c) ctors \<and>
        (\<forall>b\<in>set bs. type b = Some CLASS \<and> SERVER_TAG \<in> dom (tagMap b) \<and>
                     LIFE_CYCLE_OBSERVER_TAG \<in> dom (tagMap b))"
proof (induction ctors arbitrary: reg)
  case Nil
  show ?case by simp
next
  case (Cons c cs)
  let ?k = "SERVERS @ ''.'' @ name c"
  let ?b = "asLifeCycleObserverBinding (tag (toClass
            \<lparr>key = ?k, type = None, scope = TRANSIENT, tagMap = Map.empty\<rparr>) SERVER_TAG)"
  from Cons.prems have fresh: "?k \<notin> set (map key reg)" by auto
  then have s: "server reg c None = (Inr ?b, reg @ [?b])"
    using server_new [of None c reg] by (simp add: or_default_def)
  from Cons.prems have "distinct (map (\<lambda>c. SERVERS @ ''.'' @ name c) cs)"
    and "set (map (\<lambda>c. SERVERS @ ''.'' @ name c) cs) \<inter> set (map key (reg @ [?b])) = {}"
    by auto
  from Cons.IH [OF this] obtain bs where
    bs: "servers (reg @ [?b]) cs = (Inr bs, (reg @ [?b]) @ bs)"
      "map key bs = map (\<lambda>c. SERVERS @ ''.'' @ name c) cs"
      "\<forall>b\<in>set bs. type b = Some CLASS \<and> SERVER_TAG \<in> dom (tagMap b) \<and>
                     LIFE_CYCLE_OBSERVER_TAG \<in> dom (tagMap b)"
    by blast
  have "type ?b = Some CLASS \<and> SERVER_TAG \<in> dom (tagMap ?b) \<and>
        LIFE_CYCLE_OBSERVER_TAG \<in> dom (tagMap ?b)"
    by (simp add: asLifeCycleObserverBinding_def tag_def toClass_def)
  with s bs show ?case by (intro exI [of _ "?b # bs"]) simp
qed

lemma servers_each:
  "servers reg ctors = (Inr bs, reg') \<Longrightarrow> i < length ctors \<Longrightarrow>
   length bs = length ctors \<and>
   server (reg @ take i bs) (ctors ! i) None = (Inr (bs ! i), reg @ take (Suc i) bs)"
proof (induction ctors arbitrary: reg bs i)
  case Nil
  then show ?case by simp
next
  case (Cons c cs)
  from Cons.prems(1) obtain b reg1 bs' where
    s: "server reg c None = (Inr b, reg1)" "servers reg1 cs = (Inr bs', reg')" "bs = b # bs'"
    by (auto split: prod.splits sum.splits)
  from server_success [OF s(1)] have r1: "reg1 = reg @ [b]" .
  have len: "length bs = length (c # cs)"
  proof (cases cs)
    case Nil
    with s show ?thesis by simp
  next
    case (Cons d ds)
    then have "0 < length cs" by simp
    from Cons.IH [OF s(2) this] s(3) show ?thesis by simp
  qed
  show ?case
  proof (cases i)
    case 0
    with s r1 len show ?thesis by simp
  next
    case (Suc j)
    with Cons.prems(2) have "j < length cs" by simp
    from Cons.IH [OF s(2) this] s(3) r1 Suc len show ?thesis by simp
  qed
qed

lemma mount_generic:
  assumes nil: "\<And>reg. f reg [] = (Inr (), reg)"
    and cons: "\<And>reg x xs. f reg (x # xs) =
                 (case step reg x of (Inl e, reg1) \<Rightarrow> (Inl e, reg1) | (Inr b, reg1) \<Rightarrow> f reg1 xs)"
    and dup: "\<And>reg x. kf x \<in> set (map key reg) \<Longrightarrow> step reg x = (Inl (DuplicateKey (kf x)), reg)"
    and new: "\<And>reg x. kf x \<notin> set (map key reg) \<Longrightarrow>
                \<exists>b. step reg x = (Inr b, reg @ [b]) \<and> key b = kf x"
  shows "\<exists>bs. snd (f reg xs) = reg @ bs \<and>
           (if distinct (map kf xs) \<and> set (map kf xs) \<inter> set (map key reg) = {}
            then fst (f reg xs) = Inr () \<and> map key bs = map kf xs
            else \<exists>k'\<in>set (map kf xs). fst (f reg xs) = Inl (DuplicateKey k'))"
proof (induction xs arbitrary: reg)
  case Nil
  show ?case by (simp add: nil)
next
  case (Cons x xs)
  show ?case
  proof (cases "kf x \<in> set (map key reg)")
    case True
    from dup [OF True] have "f reg (x # xs) = (Inl (DuplicateKey (kf x)), reg)"
      by (simp add: cons)
    with True show ?thesis by auto
  next
    case False
    from new [OF False] obtain b where b: "step reg x = (Inr b, reg @ [b])" "key b = kf x"
      by blast
    then have eq: "f reg (x # xs) = f (reg @ [b]) xs"
      by (simp add: cons)
    from Cons.IH [of "reg @ [b]"] obtain bs where
      bs: "snd (f (reg @ [b]) xs) = (reg @ [b]) @ bs"
        "if distinct (map kf xs) \<and> set (map kf xs) \<inter> set (map key (reg @ [b])) = {}
         then fst (f (reg @ [b]) xs) = Inr () \<and> map key bs = map kf xs
         else \<exists>k'\<in>set (map kf xs). fst (f (reg @ [b]) xs) = Inl (DuplicateKey k')"
      by blast
    have c: "(distinct (map kf (x # xs)) \<and> set (map kf (x # xs)) \<inter> set (map key reg) = {}) =
             (distinct (map kf xs) \<and> set (map kf xs) \<inter> set (map key (reg @ [b])) = {})"
      using False b(2) by auto
    show ?thesis
    proof (intro exI [of _ "b # bs"] conjI)
      show "snd (f reg (x # xs)) = reg @ b # bs"
        using bs(1) eq by simp
      show "if distinct (map kf (x # xs)) \<and> set (map kf (x # xs)) \<inter> set (map key reg) = {}
            then fst (f reg (x # xs)) = Inr () \<and> map key (b # bs) = map kf (x # xs)
            else \<exists>k'\<in>set (map kf (x # xs)). fst (f reg (x # xs)) = Inl (DuplicateKey k')"
        unfolding c eq using bs(2) b(2) by (auto split: if_splits)
    qed
  qed
qed

lemma mountControllers_result:
  "\<exists>bs. snd (mountControllers reg cs) = reg @ bs \<and>
     (if distinct (map (\<lambda>x. ''controllers.'' @ name x) cs) \<and>
         set (map (\<lambda>x. ''controllers.'' @ name x) cs) \<inter> set (map key reg) = {}
      then fst (mountControllers reg cs) = Inr () \<and>
           map key bs = map (\<lambda>x. ''controllers.'' @ name x) cs
      else \<exists>k'\<in>set (map (\<lambda>x. ''controllers.'' @ name x) cs).
             fst (mountControllers reg cs) = Inl (DuplicateKey k'))"
proof (rule mount_generic [where step = "\<lambda>reg c. controller reg c None"])
  show "mountControllers reg [] = (Inr (), reg)" for reg by simp
  show "mountControllers reg (x # xs) =
          (case controller reg x None of (Inl e, reg1) \<Rightarrow> (Inl e, reg1)
           | (Inr b, reg1) \<Rightarrow> mountControllers reg1 xs)" for reg x xs by simp
  show "controller reg x None = (Inl (DuplicateKey (''controllers.'' @ name x)), reg)"
    if "''controllers.'' @ name x \<in> set (map key reg)" for reg x
    using controller_duplicate [of None x reg] that by (simp add: or_default_def)
  show "\<exists>b. controller reg x None = (Inr b, reg @ [b]) \<and> key b = ''controllers.'' @ name x"
    if "''controllers.'' @ name x \<notin> set (map key reg)" for reg x
    using controller_new [of None x reg] that by (simp add: or_default_def)
qed

lemma mountServers_result:
  "\<exists>bs. snd (mountServers reg cs) = reg @ bs \<and>
     (if distinct (map (\<lambda>x. SERVERS @ ''.'' @ name x) cs) \<and>
         set (map (\<lambda>x. SERVERS @ ''.'' @ name x) cs) \<inter> set (map key reg) = {}
      then fst (mountServers reg cs) = Inr () \<and>
           map key bs = map (\<lambda>x. SERVERS @ ''.'' @ name x) cs
      else \<exists>k'\<in>set (map (\<lambda>x. SERVERS @ ''.'' @ name x) cs).
             fst (mountServers reg cs) = Inl (DuplicateKey k'))"
proof (rule mount_generic [where step = "\<lambda>reg c. server reg c None"])
  show "mountServers reg [] = (Inr (), reg)" for reg by simp
  show "mountServers reg (x # xs) =
          (case server reg x None of (Inl e, reg1) \<Rightarrow> (Inl e, reg1)
           | (Inr b, reg1) \<Rightarrow> mountServers reg1 xs)" for reg x xs by simp
  show "server reg x None = (Inl (DuplicateKey (SERVERS @ ''.'' @ name x)), reg)"
    if "SERVERS @ ''.'' @ name x \<in> set (map key reg)" for reg x
    using server_duplicate [of None x reg] that by (simp add: or_default_def)
  show "\<exists>b. server reg x None = (Inr b, reg @ [b]) \<and> key b = SERVERS @ ''.'' @ name x"
    if "SERVERS @ ''.'' @ name x \<notin> set (map key reg)" for reg x
    using server_new [of None x reg] that by (simp add: or_default_def)
qed

lemma mountProviders_result:
  "\<exists>bs. snd (mountProviders reg ps) = reg @ bs \<and>
     (if distinct (map fst ps) \<and> set (map fst ps) \<inter> set (map key reg) = {}
      then fst (mountProviders reg ps) = Inr () \<and> map key bs = map fst ps
      else \<exists>k'\<in>set (map fst ps). fst (mountProviders reg ps) = Inl (DuplicateKey k'))"
proof (rule mount_generic [where step = provider])
  show "mountProviders reg [] = (Inr (), reg)" for reg by simp
  show "mountProviders reg (x # xs) =
          (case provider reg x of (Inl e, reg1) \<Rightarrow> (Inl e, reg1)
           | (Inr b, reg1) \<Rightarrow> mountProviders reg1 xs)" for reg x xs by simp
  show "provider reg x = (Inl (DuplicateKey (fst x)), reg)"
    if "fst x \<in> set (map key reg)" for reg x
    using provider_duplicate that by simp
  show "\<exists>b. provider reg x = (Inr b, reg @ [b]) \<and> key b = fst x"
    if "fst x \<notin> set (map key reg)" for reg x
    using provider_new [of x reg] that by simp
qed

lemma mountComponent_result:
  "\<exists>bs. snd (mountComponent reg inst) = reg @ bs \<and>
     (if distinct (artifactKeys inst) \<and> set (artifactKeys inst) \<inter> set (map key reg) = {}
      then fst (mountComponent reg inst) = Inr () \<and> map key bs = artifactKeys inst
      else \<exists>k'\<in>set (artifactKeys inst). fst (mountComponent reg inst) = Inl (DuplicateKey k'))"
proof -
  define k1 where "k1 = map (\<lambda>x. ''controllers.'' @ name x) (componentControllers inst)"
  define k2 where "k2 = map (\<lambda>x. SERVERS @ ''.'' @ name x) (componentServers inst)"
  define k3 where "k3 = map fst (componentProviders inst)"
  define K where "K = set (map key reg)"
  have ak: "artifactKeys inst = k1 @ k2 @ k3"
    by (simp only: artifactKeys_def k1_def k2_def k3_def)
  obtain r1 reg1 where m1: "mountControllers reg (componentControllers inst) = (r1, reg1)"
    by (cases "mountControllers reg (componentControllers inst)") auto
  then have f1: "fst (mountControllers reg (componentControllers inst)) = r1"
    "snd (mountControllers reg (componentControllers inst)) = reg1" by simp_all
  from mountControllers_result [of reg "componentControllers inst", folded k1_def K_def,
      unfolded f1 if_bool_eq_conj]
  obtain bs1 where
    b1: "reg1 = reg @ bs1"
      "distinct k1 \<and> set k1 \<inter> K = {} \<Longrightarrow> r1 = Inr () \<and> map key bs1 = k1"
      "\<not> (distinct k1 \<and> set k1 \<inter> K = {}) \<Longrightarrow> \<exists>k'\<in>set k1. r1 = Inl (DuplicateKey k')"
    by blast
  show ?thesis
    unfolding ak if_bool_eq_conj K_def [symmetric]
  proof (cases "distinct k1 \<and> set k1 \<inter> K = {}")
    case False
    with b1(3) obtain k' where k': "k' \<in> set k1" "r1 = Inl (DuplicateKey k')" by blast
    with m1 have mc: "mountComponent reg inst = (Inl (DuplicateKey k'), reg @ bs1)"
      by (simp add: mountComponent_def b1(1))
    from False have "\<not> (distinct (k1 @ k2 @ k3) \<and> set (k1 @ k2 @ k3) \<inter> K = {})"
      by auto
    with mc k'(1) show "\<exists>bs. snd (mountComponent reg inst) = reg @ bs \<and>
         (distinct (k1 @ k2 @ k3) \<and> set (k1 @ k2 @ k3) \<inter> K = {} \<longrightarrow>
          fst (mountComponent reg inst) = Inr () \<and> map key bs = k1 @ k2 @ k3) \<and>
         (\<not> (distinct (k1 @ k2 @ k3) \<and> set (k1 @ k2 @ k3) \<inter> K = {}) \<longrightarrow>
          (\<exists>k'\<in>set (k1 @ k2 @ k3). fst (mountComponent reg inst) = Inl (DuplicateKey k')))"
      by (intro exI [of _ bs1]) auto
  next
    case c1: True
    with b1(2) have r1: "r1 = Inr ()" "map key bs1 = k1" by blast+
    define K1 where "K1 = set (map key reg1)"
    have K1: "K1 = K \<union> set k1"
      using r1(2) by (auto simp: K1_def K_def b1(1))
    obtain r2 reg2 where m2: "mountServers reg1 (componentServers inst) = (r2, reg2)"
      by (cases "mountServers reg1 (componentServers inst)") auto
    then have f2: "fst (mountServers reg1 (componentServers inst)) = r2"
      "snd (mountServers reg1 (componentServers inst)) = reg2" by simp_all
    from mountServers_result [of reg1 "componentServers inst", folded k2_def K1_def,
        unfolded f2 if_bool_eq_conj]
    obtain bs2 where
      b2: "reg2 = reg1 @ bs2"
        "distinct k2 \<and> set k2 \<inter> K1 = {} \<Longrightarrow> r2 = Inr () \<and> map key bs2 = k2"
        "\<not> (distinct k2 \<and> set k2 \<inter> K1 = {}) \<Longrightarrow> \<exists>k'\<in>set k2. r2 = Inl (DuplicateKey k')"
      by blast
    show "\<exists>bs. snd (mountComponent reg inst) = reg @ bs \<and>
         (distinct (k1 @ k2 @ k3) \<and> set (k1 @ k2 @ k3) \<inter> K = {} \<longrightarrow>
          fst (mountComponent reg inst) = Inr () \<and> map key bs = k1 @ k2 @ k3) \<and>
         (\<not> (distinct (k1 @ k2 @ k3) \<and> set (k1 @ k2 @ k3) \<inter> K = {}) \<longrightarrow>
          (\<exists>k'\<in>set (k1 @ k2 @ k3). fst (mountComponent reg inst) = Inl (DuplicateKey k')))"
    proof (cases "distinct k2 \<and> set k2 \<inter> K1 = {}")
      case False
      with b2(3) obtain k' where k': "k' \<in> set k2" "r2 = Inl (DuplicateKey k')" by blast
      with m1 m2 r1 have mc: "mountComponent reg inst = (Inl (DuplicateKey k'), reg @ bs1 @ bs2)"
        by (simp add: mountComponent_def b1(1) b2(1))
      from False K1 have "\<not> (distinct (k1 @ k2 @ k3) \<and> set (k1 @ k2 @ k3) \<inter> K = {})"
        by auto
      with mc k'(1) show ?thesis
        by (intro exI [of _ "bs1 @ bs2"]) auto
    next
      case c2: True
      with b2(2) have r2: "r2 = Inr ()" "map key bs2 = k2" by blast+
      define K2 where "K2 = set (map key reg2)"
      have K2: "K2 = K \<union> set k1 \<union> set k2"
        using r1(2) r2(2) by (auto simp: K2_def K_def b1(1) b2(1))
      obtain r3 reg3 where m3: "mountProviders reg2 (componentProviders inst) = (r3, reg3)"
        by (cases "mountProviders reg2 (componentProviders inst)") auto
      then have f3: "fst (mountProviders reg2 (componentProviders inst)) = r3"
        "snd (mountProviders reg2 (componentProviders inst)) = reg3" by simp_all
      from mountProviders_result [of reg2 "componentProviders inst", folded k3_def K2_def,
          unfolded f3 if_bool_eq_conj]
      obtain bs3 where
        b3: "reg3 = reg2 @ bs3"
          "distinct k3 \<and> set k3 \<inter> K2 = {} \<Longrightarrow> r3 = Inr () \<and> map key bs3 = k3"
          "\<not> (distinct k3 \<and> set k3 \<inter> K2 = {}) \<Longrightarrow> \<exists>k'\<in>set k3. r3 = Inl (DuplicateKey k')"
        by blast
      have mc: "mountComponent reg inst = (r3, reg @ bs1 @ bs2 @ bs3)"
        using m1 m2 m3 r1 r2 b1(1) b2(1) b3(1) by (simp add: mountComponent_def)
      have cond: "(distinct (k1 @ k2 @ k3) \<and> set (k1 @ k2 @ k3) \<inter> K = {}) =
                  (distinct k3 \<and> set k3 \<inter> K2 = {})"
        using c1 c2 K1 K2 by auto
      show ?thesis
      proof (cases "distinct k3 \<and> set k3 \<inter> K2 = {}")
        case True
        with b3(2) have "r3 = Inr ()" "map key bs3 = k3" by blast+
        with mc cond True r1(2) r2(2) show ?thesis
          by (intro exI [of _ "bs1 @ bs2 @ bs3"]) simp
      next
        case False
        with b3(3) obtain k' where "k' \<in> set k3" "r3 = Inl (DuplicateKey k')" by blast
        with mc cond False show ?thesis
          by (intro exI [of _ "bs1 @ bs2 @ bs3"]) auto
      qed
    qed
  qed
qed

lemma or_default_eq: "or_default n d = (if n = None \<or> n = Some [] then d else the n)"
  by (cases n) (simp_all add: or_default_def)

lemma component_duplicate:
  "COMPONENTS @ ''.'' @ or_default n (name ctor) \<in> set (map key reg) \<Longrightarrow>
   component reg ctor n =
     (Inl (DuplicateKey (COMPONENTS @ ''.'' @ or_default n (name ctor))), reg)"
  by (simp add: component_def Let_def bind_duplicate)

lemma component_new:
  assumes "k = COMPONENTS @ ''.'' @ or_default n (name ctor)" and "k \<notin> set (map key reg)"
  shows "\<exists>b. key b = k \<and> type b = Some CLASS \<and> scope b = SINGLETON \<and>
              COMPONENT_TAG \<in> dom (tagMap b) \<and>
              (LIFE_CYCLE_OBSERVER_TAG \<in> dom (tagMap b) \<longleftrightarrow> isLifeCycleObserverClass ctor) \<and>
              component reg ctor n =
                (case instantiate ctor of
                   Inl e \<Rightarrow> (Inl e, reg @ [b])
                 | Inr inst \<Rightarrow> mountComponent (reg @ [b]) inst)"
proof -
  define b0 where "b0 = \<lparr>key = k, type = None, scope = TRANSIENT, tagMap = Map.empty\<rparr>"
  define b1 where "b1 = tag (inScope (toClass b0) SINGLETON) COMPONENT_TAG"
  define b where "b = (if isLifeCycleObserverClass ctor then asLifeCycleObserverBinding b1 else b1)"
  have kb: "key b = k" "key b0 = k"
    by (simp_all add: b_def b1_def b0_def)
  have bnd: "bind reg k = (Inr b0, reg @ [b0])"
    using bind_new [OF assms(2)] by (simp add: b0_def)
  have st: "store b (reg @ [b0]) = reg @ [b]"
    using store_new [OF kb(1) assms(2) kb(2)] .
  have comp: "component reg ctor n =
                (case instantiate ctor of
                   Inl e \<Rightarrow> (Inl e, reg @ [b])
                 | Inr inst \<Rightarrow> mountComponent (reg @ [b]) inst)"
  proof -
    have "component reg ctor n =
            (case instantiate ctor of
               Inl e \<Rightarrow> (Inl e, store b (reg @ [b0]))
             | Inr inst \<Rightarrow> mountComponent (store b (reg @ [b0])) inst)"
      unfolding component_def Let_def assms(1) [symmetric] bnd b_def b1_def by simp
    then show ?thesis by (simp only: st)
  qed
  have props: "type b = Some CLASS" "scope b = SINGLETON" "COMPONENT_TAG \<in> dom (tagMap b)"
    "LIFE_CYCLE_OBSERVER_TAG \<in> dom (tagMap b) \<longleftrightarrow> isLifeCycleObserverClass ctor"
    by (simp_all add: b_def b1_def b0_def asLifeCycleObserverBinding_def tag_def inScope_def
        toClass_def COMPONENT_TAG_def LIFE_CYCLE_OBSERVER_TAG_def)
  from kb(1) props comp show ?thesis by blast
qed

lemma component_key_bound:
  "COMPONENTS @ ''.'' @ or_default n (name ctor) \<in> set (map key (snd (component reg ctor n)))"
proof (cases "COMPONENTS @ ''.'' @ or_default n (name ctor) \<in> set (map key reg)")
  case True
  from component_duplicate [OF True] True show ?thesis by simp
next
  case False
  from component_new [OF refl False] obtain b where
    b: "key b = COMPONENTS @ ''.'' @ or_default n (name ctor)" and
    c: "component reg ctor n =
          (case instantiate ctor of
             Inl e \<Rightarrow> (Inl e, reg @ [b])
           | Inr inst \<Rightarrow> mountComponent (reg @ [b]) inst)"
    by blast
  show ?thesis
  proof (cases "instantiate ctor")
    case (Inl e)
    with c b show ?thesis by simp
  next
    case (Inr inst)
    from mountComponent_result [of "reg @ [b]" inst] obtain bs where
      "snd (mountComponent (reg @ [b]) inst) = (reg @ [b]) @ bs" by blast
    with c Inr b show ?thesis by simp
  qed
qed

lemma component_ok:
  assumes k: "k = COMPONENTS @ ''.'' @ or_default n (name ctor)"
    and fresh: "k \<notin> set (map key reg)"
    and i: "instantiate ctor = Inr inst"
    and d: "distinct (k # artifactKeys inst)"
    and f: "set (artifactKeys inst) \<inter> set (map key reg) = {}"
  shows "\<exists>b bs. component reg ctor n = (Inr (), reg @ b # bs) \<and> key b = k \<and>
                tagMap b COMPONENT_TAG \<noteq> None \<and> map key bs = artifactKeys inst"
proof -
  from component_new [OF k fresh] obtain b where
    b: "key b = k" "COMPONENT_TAG \<in> dom (tagMap b)"
    and c: "component reg ctor n =
             (case instantiate ctor of
                Inl e \<Rightarrow> (Inl e, reg @ [b])
              | Inr inst \<Rightarrow> mountComponent (reg @ [b]) inst)"
    by blast
  from d f b(1) have "distinct (artifactKeys inst) \<and>
      set (artifactKeys inst) \<inter> set (map key (reg @ [b])) = {}"
    by auto
  with mountComponent_result [of "reg @ [b]" inst, unfolded if_bool_eq_conj]
  obtain bs where "snd (mountComponent (reg @ [b]) inst) = (reg @ [b]) @ bs"
    "fst (mountComponent (reg @ [b]) inst) = Inr ()" "map key bs = artifactKeys inst"
    by blast
  then have "mountComponent (reg @ [b]) inst = (Inr (), reg @ b # bs)"
    by (cases "mountComponent (reg @ [b]) inst") simp
  with c i b \<open>map key bs = artifactKeys inst\<close> show ?thesis by auto
qed

lemma component_collision:
  assumes k: "k = COMPONENTS @ ''.'' @ or_default n (name ctor)"
    and fresh: "k \<notin> set (map key reg)"
    and i: "instantiate ctor = Inr inst"
    and nd: "\<not> (distinct (k # artifactKeys inst) \<and>
                set (artifactKeys inst) \<inter> set (map key reg) = {})"
  shows "\<exists>k'\<in>set (artifactKeys inst). fst (component reg ctor n) = Inl (DuplicateKey k')"
proof -
  from component_new [OF k fresh] obtain b where
    b: "key b = k"
    and c: "component reg ctor n =
             (case instantiate ctor of
                Inl e \<Rightarrow> (Inl e, reg @ [b])
              | Inr inst \<Rightarrow> mountComponent (reg @ [b]) inst)"
    by blast
  from nd b have "\<not> (distinct (artifactKeys inst) \<and>
      set (artifactKeys inst) \<inter> set (map key (reg @ [b])) = {})"
    by auto
  with mountComponent_result [of "reg @ [b]" inst, unfolded if_bool_eq_conj]
  obtain k' where "k' \<in> set (artifactKeys inst)"
    "fst (mountComponent (reg @ [b]) inst) = Inl (DuplicateKey k')"
    by blast
  with c i show ?thesis by auto
qed

subsection \<open>Components and servers\<close>

text \<open>
  Claim C6: on a registry where the key "components." followed by the name (the class name
  when the name is undefined or empty) is not bound, \<^verbatim>\<open>component(ctor, name?)\<close> adds under
  this key a class binding in singleton scope tagged "component", which is tagged as a
  lifecycle observer if and only if the component class has the life cycle capability; it then
  instantiates the component, fails with what the constructor throws, or mounts the instance on
  the registry; when the keys of the declared artifacts are distinct and new, the bindings of
  the artifacts follow the binding of the component.
\<close>

theorem C6_component_registration:
  "(let k = ''components.'' @ (if n = None \<or> n = Some [] then name ctor else the n) in
      k \<notin> set (map key reg) \<longrightarrow>
        (\<exists>b. key b = k \<and> type b = Some CLASS \<and> scope b = SINGLETON \<and>
             COMPONENT_TAG \<in> dom (tagMap b) \<and>
             (LIFE_CYCLE_OBSERVER_TAG \<in> dom (tagMap b) \<longleftrightarrow> isLifeCycleObserverClass ctor) \<and>
             component reg ctor n =
               (case instantiate ctor of
                  Inl e \<Rightarrow> (Inl e, reg @ [b])
                | Inr inst \<Rightarrow> mountComponent (reg @ [b]) inst) \<and>
             (\<forall>inst. instantiate ctor = Inr inst \<and> distinct (k # artifactKeys inst) \<and>
                     set (artifactKeys inst) \<inter> set (map key reg) = {} \<longrightarrow>
                (\<exists>bs. component reg ctor n = (Inr (), reg @ b # bs) \<and>
                      map key bs = artifactKeys inst))))"
proof -
  define k where "k = COMPONENTS @ ''.'' @ or_default n (name ctor)"
  have k: "''components.'' @ (if n = None \<or> n = Some [] then name ctor else the n) = k"
    by (simp add: k_def COMPONENTS_def or_default_eq)
  have "\<exists>b. key b = k \<and> type b = Some CLASS \<and> scope b = SINGLETON \<and>
             COMPONENT_TAG \<in> dom (tagMap b) \<and>
             (LIFE_CYCLE_OBSERVER_TAG \<in> dom (tagMap b) \<longleftrightarrow> isLifeCycleObserverClass ctor) \<and>
             component reg ctor n =
               (case instantiate ctor of
                  Inl e \<Rightarrow> (Inl e, reg @ [b])
                | Inr inst \<Rightarrow> mountComponent (reg @ [b]) inst) \<and>
             (\<forall>inst. instantiate ctor = Inr inst \<and> distinct (k # artifactKeys inst) \<and>
                     set (artifactKeys inst) \<inter> set (map key reg) = {} \<longrightarrow>
                (\<exists>bs. component reg ctor n = (Inr (), reg @ b # bs) \<and>
                      map key bs = artifactKeys inst))"
    if fresh: "k \<notin> set (map key reg)"
  proof -
    from component_new [OF k_def fresh] obtain b where
      b: "key b = k" "type b = Some CLASS" "scope b = SINGLETON"
        "COMPONENT_TAG \<in> dom (tagMap b)"
        "LIFE_CYCLE_OBSERVER_TAG \<in> dom (tagMap b) \<longleftrightarrow> isLifeCycleObserverClass ctor"
      and c: "component reg ctor n =
               (case instantiate ctor of
                  Inl e \<Rightarrow> (Inl e, reg @ [b])
                | Inr inst \<Rightarrow> mountComponent (reg @ [b]) inst)"
      by blast
    have m: "\<exists>bs. component reg ctor n = (Inr (), reg @ b # bs) \<and> map key bs = artifactKeys inst"
      if i: "instantiate ctor = Inr inst" and d: "distinct (k # artifactKeys inst)"
        and f: "set (artifactKeys inst) \<inter> set (map key reg) = {}" for inst
    proof -
      from d f b(1) have "distinct (artifactKeys inst) \<and>
          set (artifactKeys inst) \<inter> set (map key (reg @ [b])) = {}"
        by auto
      with mountComponent_result [of "reg @ [b]" inst, unfolded if_bool_eq_conj]
      obtain bs where "snd (mountComponent (reg @ [b]) inst) = (reg @ [b]) @ bs"
        "fst (mountComponent (reg @ [b]) inst) = Inr ()" "map key bs = artifactKeys inst"
        by blast
      then have "mountComponent (reg @ [b]) inst = (Inr (), reg @ b # bs)"
        by (cases "mountComponent (reg @ [b]) inst") simp
      with c i \<open>map key bs = artifactKeys inst\<close> show ?thesis by simp
    qed
    from b c m show ?thesis by blast
  qed
  then show ?thesis
    unfolding Let_def k by blast
qed

text \<open>
  The example of the source, a component class with one controller:
  \<^verbatim>\<open>app.component(ProductComponent)\<close> binds "components.ProductComponent" and mounts
  "controllers.ProductController".
\<close>

theorem C6_component_registration_witness:
  "''components.ProductComponent'' \<notin> set (map key []) \<and>
   fst (component []
     \<lparr>name = ''ProductComponent'', isLifeCycleObserverClass = False,
      instantiate = Inr \<lparr>componentControllers = [\<lparr>name = ''ProductController''\<rparr>],
                         componentServers = [], componentProviders = []\<rparr>\<rparr> None) = Inr () \<and>
   map key (snd (component []
     \<lparr>name = ''ProductComponent'', isLifeCycleObserverClass = False,
      instantiate = Inr \<lparr>componentControllers = [\<lparr>name = ''ProductController''\<rparr>],
                         componentServers = [], componentProviders = []\<rparr>\<rparr> None)) =
     [''components.ProductComponent'', ''controllers.ProductController'']"
proof -
  from C6_component_registration [of None
     "\<lparr>name = ''ProductComponent'', isLifeCycleObserverClass = False,
      instantiate = Inr \<lparr>componentControllers = [\<lparr>name = ''ProductController''\<rparr>],
                         componentServers = [], componentProviders = []\<rparr>\<rparr>" "[]"]
  have "\<exists>b bs. component []
     \<lparr>name = ''ProductComponent'', isLifeCycleObserverClass = False,
      instantiate = Inr \<lparr>componentControllers = [\<lparr>name = ''ProductController''\<rparr>],
                         componentServers = [], componentProviders = []\<rparr>\<rparr> None =
        (Inr (), [] @ b # bs) \<and> key b = ''components.ProductComponent'' \<and>
        map key bs = [''controllers.ProductController'']"
    by (simp add: artifactKeys_def Let_def) (elim exE conjE, intro exI conjI, assumption+)
  then show ?thesis by auto
qed

text \<open>
  Claim C7: \<^verbatim>\<open>server(ctor, name?)\<close> fails on a key that is bound already; otherwise it appends
  to the registry, and returns, a class binding under the key "servers." followed by the name
  (the class name when the name is undefined or empty), tagged "server" and as a lifecycle
  observer. \<^verbatim>\<open>servers(ctors)\<close>, when the keys of the class names are distinct and new,
  returns the bindings created, keyed by the class names in the order of the constructors; and
  whenever it returns, its \<open>i\<close>-th binding is what \<^verbatim>\<open>server\<close> returns for the \<open>i\<close>-th
  constructor on the registry that holds the bindings before it.
\<close>

theorem C7_server_registration:
  "(let k = ''servers.'' @ (if n = None \<or> n = Some [] then name ctor else the n) in
      (k \<in> set (map key reg) \<longrightarrow> server reg ctor n = (Inl (DuplicateKey k), reg)) \<and>
      (k \<notin> set (map key reg) \<longrightarrow>
         (\<exists>b. server reg ctor n = (Inr b, reg @ [b]) \<and> key b = k \<and> type b = Some CLASS \<and>
              SERVER_TAG \<in> dom (tagMap b) \<and> LIFE_CYCLE_OBSERVER_TAG \<in> dom (tagMap b)))) \<and>
   (distinct (map (\<lambda>c. ''servers.'' @ name c) ctors) \<and>
    set (map (\<lambda>c. ''servers.'' @ name c) ctors) \<inter> set (map key reg) = {} \<longrightarrow>
      (\<exists>bs. servers reg ctors = (Inr bs, reg @ bs) \<and>
            map key bs = map (\<lambda>c. ''servers.'' @ name c) ctors \<and>
            (\<forall>b\<in>set bs. type b = Some CLASS \<and> SERVER_TAG \<in> dom (tagMap b) \<and>
                         LIFE_CYCLE_OBSERVER_TAG \<in> dom (tagMap b)))) \<and>
   (\<forall>bs reg' i. servers reg ctors = (Inr bs, reg') \<and> i < length ctors \<longrightarrow>
      length bs = length ctors \<and>
      server (reg @ take i bs) (ctors ! i) None = (Inr (bs ! i), reg @ take (Suc i) bs))"
proof -
  define k where "k = SERVERS @ ''.'' @ or_default n (name ctor)"
  have k: "''servers.'' @ (if n = None \<or> n = Some [] then name ctor else the n) = k"
    by (simp add: k_def SERVERS_def or_default_eq)
  have S: "(\<lambda>c. ''servers.'' @ name c) = (\<lambda>c. SERVERS @ ''.'' @ name c)"
    by (simp add: SERVERS_def)
  have 1: "k \<in> set (map key reg) \<longrightarrow> server reg ctor n = (Inl (DuplicateKey k), reg)"
    using server_duplicate [of n ctor reg] by (simp add: k_def)
  have 2: "k \<notin> set (map key reg) \<longrightarrow>
         (\<exists>b. server reg ctor n = (Inr b, reg @ [b]) \<and> key b = k \<and> type b = Some CLASS \<and>
              SERVER_TAG \<in> dom (tagMap b) \<and> LIFE_CYCLE_OBSERVER_TAG \<in> dom (tagMap b))"
  proof
    assume "k \<notin> set (map key reg)"
    then have "server reg ctor n =
       (Inr (asLifeCycleObserverBinding (tag (toClass
            \<lparr>key = k, type = None, scope = TRANSIENT, tagMap = Map.empty\<rparr>) SERVER_TAG)),
        reg @ [asLifeCycleObserverBinding (tag (toClass
            \<lparr>key = k, type = None, scope = TRANSIENT, tagMap = Map.empty\<rparr>) SERVER_TAG)])"
      unfolding k_def by (rule server_new)
    then show "\<exists>b. server reg ctor n = (Inr b, reg @ [b]) \<and> key b = k \<and> type b = Some CLASS \<and>
              SERVER_TAG \<in> dom (tagMap b) \<and> LIFE_CYCLE_OBSERVER_TAG \<in> dom (tagMap b)"
      by (simp add: asLifeCycleObserverBinding_def tag_def toClass_def)
  qed
  have 3: "distinct (map (\<lambda>c. ''servers.'' @ name c) ctors) \<and>
    set (map (\<lambda>c. ''servers.'' @ name c) ctors) \<inter> set (map key reg) = {} \<longrightarrow>
      (\<exists>bs. servers reg ctors = (Inr bs, reg @ bs) \<and>
            map key bs = map (\<lambda>c. ''servers.'' @ name c) ctors \<and>
            (\<forall>b\<in>set bs. type b = Some CLASS \<and> SERVER_TAG \<in> dom (tagMap b) \<and>
                         LIFE_CYCLE_OBSERVER_TAG \<in> dom (tagMap b)))"
    unfolding S using servers_ok [of ctors reg] by blast
  have 4: "\<forall>bs reg' i. servers reg ctors = (Inr bs, reg') \<and> i < length ctors \<longrightarrow>
      length bs = length ctors \<and>
      server (reg @ take i bs) (ctors ! i) None = (Inr (bs ! i), reg @ take (Suc i) bs)"
    using servers_each by blast
  from 1 2 3 4 show ?thesis
    unfolding Let_def k by blast
qed

text \<open>
  The examples of the source: \<^verbatim>\<open>app.server(RestServer)\<close> binds "servers.RestServer",
  \<^verbatim>\<open>app.server(RestServer, "v1API")\<close> binds "servers.v1API", a second
  \<^verbatim>\<open>app.server(RestServer)\<close> fails, and \<^verbatim>\<open>app.servers([RestServer, GRPCServer])\<close> binds
  "servers.RestServer" and "servers.GRPCServer".
\<close>

theorem C7_server_registration_witness:
  "map key (snd (server [] \<lparr>name = ''RestServer''\<rparr> None)) = [''servers.RestServer''] \<and>
   map key (snd (server [] \<lparr>name = ''RestServer''\<rparr> (Some ''v1API''))) = [''servers.v1API''] \<and>
   fst (server (snd (server [] \<lparr>name = ''RestServer''\<rparr> None)) \<lparr>name = ''RestServer''\<rparr> None) =
     Inl (DuplicateKey ''servers.RestServer'') \<and>
   map key (snd (servers [] [\<lparr>name = ''RestServer''\<rparr>, \<lparr>name = ''GRPCServer''\<rparr>])) =
     [''servers.RestServer'', ''servers.GRPCServer''] \<and>
   map key (case fst (servers [] [\<lparr>name = ''RestServer''\<rparr>, \<lparr>name = ''GRPCServer''\<rparr>]) of
              Inl e \<Rightarrow> [] | Inr bs \<Rightarrow> bs) =
     [''servers.RestServer'', ''servers.GRPCServer'']"
  using C7_server_registration [of None "\<lparr>name = ''RestServer''\<rparr>" "[]"
      "[\<lparr>name = ''RestServer''\<rparr>, \<lparr>name = ''GRPCServer''\<rparr>]"]
    C7_server_registration [of "Some ''v1API''" "\<lparr>name = ''RestServer''\<rparr>" "[]" "[]"]
    C7_server_registration [of None "\<lparr>name = ''RestServer''\<rparr>"
      "snd (server [] \<lparr>name = ''RestServer''\<rparr> None)" "[]"]
  by (simp add: server_def bind_def store_def or_default_def Let_def SERVERS_def SERVER_TAG_def
      LIFE_CYCLE_OBSERVER_TAG_def asLifeCycleObserverBinding_def tag_def toClass_def)

text \<open>
  Claim C8: \<^verbatim>\<open>component\<close> fails with a duplicate-key error, leaving the registry as it was,
  when the derived key of the component is bound already; after any call the derived key is
  bound, so mounting twice under the same derived key fails the second time. On a new key, it
  fails with what the constructor throws when the construction throws, and with a duplicate-key
  error of a declared artifact's key when the keys of the declared artifacts are not distinct
  and new; otherwise it succeeds. Two components whose derived keys and artifact keys are all
  distinct and new both mount, and both are found afterwards among the bindings tagged
  "component".
\<close>

theorem C8_mount_failures:
  "(let k = ''components.'' @ (if n = None \<or> n = Some [] then name ctor else the n);
        r = component reg ctor n in
      (k \<in> set (map key reg) \<longrightarrow> r = (Inl (DuplicateKey k), reg)) \<and>
      k \<in> set (map key (snd r)) \<and>
      (k \<notin> set (map key reg) \<longrightarrow>
         (\<forall>e. instantiate ctor = Inl e \<longrightarrow> fst r = Inl e) \<and>
         (\<forall>inst. instantiate ctor = Inr inst \<longrightarrow>
            (if distinct (k # artifactKeys inst) \<and>
                set (artifactKeys inst) \<inter> set (map key reg) = {}
             then fst r = Inr ()
             else \<exists>k'\<in>set (artifactKeys inst). fst r = Inl (DuplicateKey k'))))) \<and>
   (let k1 = ''components.'' @ (if n1 = None \<or> n1 = Some [] then name ctor1 else the n1);
        k2 = ''components.'' @ (if n2 = None \<or> n2 = Some [] then name ctor2 else the n2);
        r1 = component reg ctor1 n1;
        r2 = component (snd r1) ctor2 n2 in
      (k1 = k2 \<longrightarrow> r2 = (Inl (DuplicateKey k2), snd r1)) \<and>
      (\<forall>i1 i2. instantiate ctor1 = Inr i1 \<and> instantiate ctor2 = Inr i2 \<and>
                distinct (k1 # artifactKeys i1 @ k2 # artifactKeys i2) \<and>
                set (k1 # artifactKeys i1 @ k2 # artifactKeys i2) \<inter> set (map key reg) = {} \<longrightarrow>
         fst r1 = Inr () \<and> fst r2 = Inr () \<and>
         (\<exists>b\<in>set (find_bindings (snd r2) (\<lambda>b. tagMap b COMPONENT_TAG \<noteq> None)). key b = k1) \<and>
         (\<exists>b\<in>set (find_bindings (snd r2) (\<lambda>b. tagMap b COMPONENT_TAG \<noteq> None)). key b = k2)))"
proof -
  define ck where "ck = (\<lambda>n (c :: ComponentConstructor). COMPONENTS @ ''.'' @ or_default n (name c))"
  have ck: "''components.'' @ (if m = None \<or> m = Some [] then name c else the m) = ck m c"
    for m and c :: ComponentConstructor
    by (simp add: ck_def COMPONENTS_def or_default_eq)
  have ckd: "ck m c = COMPONENTS @ ''.'' @ or_default m (name c)" for m c
    by (simp add: ck_def)
  have dup: "ck m c \<in> set (map key g) \<Longrightarrow> component g c m = (Inl (DuplicateKey (ck m c)), g)"
    for m c g
    unfolding ckd by (rule component_duplicate)
  have bound: "ck m c \<in> set (map key (snd (component g c m)))" for m c g
    unfolding ckd by (rule component_key_bound)
  have throws: "fst (component g c m) = Inl e"
    if "ck m c \<notin> set (map key g)" "instantiate c = Inl e" for m c g e
    using component_new [OF ckd that(1)] that(2) by auto
  have ok: "\<exists>b bs. component g c m = (Inr (), g @ b # bs) \<and> key b = ck m c \<and>
                tagMap b COMPONENT_TAG \<noteq> None \<and> map key bs = artifactKeys inst"
    if "ck m c \<notin> set (map key g)" "instantiate c = Inr inst"
      "distinct (ck m c # artifactKeys inst)" "set (artifactKeys inst) \<inter> set (map key g) = {}"
    for m c g inst
    using component_ok [OF ckd that] .
  have bad: "\<exists>k'\<in>set (artifactKeys inst). fst (component g c m) = Inl (DuplicateKey k')"
    if "ck m c \<notin> set (map key g)" "instantiate c = Inr inst"
      "\<not> (distinct (ck m c # artifactKeys inst) \<and> set (artifactKeys inst) \<inter> set (map key g) = {})"
    for m c g inst
    using component_collision [OF ckd that] .
  have one: "(ck n ctor \<in> set (map key reg) \<longrightarrow>
        component reg ctor n = (Inl (DuplicateKey (ck n ctor)), reg)) \<and>
      ck n ctor \<in> set (map key (snd (component reg ctor n))) \<and>
      (ck n ctor \<notin> set (map key reg) \<longrightarrow>
         (\<forall>e. instantiate ctor = Inl e \<longrightarrow> fst (component reg ctor n) = Inl e) \<and>
         (\<forall>inst. instantiate ctor = Inr inst \<longrightarrow>
            (if distinct (ck n ctor # artifactKeys inst) \<and>
                set (artifactKeys inst) \<inter> set (map key reg) = {}
             then fst (component reg ctor n) = Inr ()
             else \<exists>k'\<in>set (artifactKeys inst).
                    fst (component reg ctor n) = Inl (DuplicateKey k'))))"
    unfolding if_bool_eq_conj
    using dup [of n ctor reg] bound [of n ctor reg] throws [of n ctor reg]
      ok [of n ctor reg] bad [of n ctor reg]
    by (metis fst_conv)
  have twice: "component (snd (component reg ctor1 n1)) ctor2 n2 =
      (Inl (DuplicateKey (ck n2 ctor2)), snd (component reg ctor1 n1))"
    if "ck n1 ctor1 = ck n2 ctor2"
    using dup [of n2 ctor2 "snd (component reg ctor1 n1)"] bound [of n1 ctor1 reg] that by simp
  have both: "fst (component reg ctor1 n1) = Inr () \<and>
      fst (component (snd (component reg ctor1 n1)) ctor2 n2) = Inr () \<and>
      (\<exists>b\<in>set (find_bindings (snd (component (snd (component reg ctor1 n1)) ctor2 n2))
                (\<lambda>b. tagMap b COMPONENT_TAG \<noteq> None)). key b = ck n1 ctor1) \<and>
      (\<exists>b\<in>set (find_bindings (snd (component (snd (component reg ctor1 n1)) ctor2 n2))
                (\<lambda>b. tagMap b COMPONENT_TAG \<noteq> None)). key b = ck n2 ctor2)"
    if h: "instantiate ctor1 = Inr i1" "instantiate ctor2 = Inr i2"
      "distinct (ck n1 ctor1 # artifactKeys i1 @ ck n2 ctor2 # artifactKeys i2)"
      "set (ck n1 ctor1 # artifactKeys i1 @ ck n2 ctor2 # artifactKeys i2) \<inter> set (map key reg) = {}"
    for i1 i2
  proof -
    from h(3,4) have "ck n1 ctor1 \<notin> set (map key reg)" "distinct (ck n1 ctor1 # artifactKeys i1)"
      "set (artifactKeys i1) \<inter> set (map key reg) = {}"
      by auto
    from ok [OF this(1) h(1) this(2,3)] obtain b1 bs1 where
      1: "component reg ctor1 n1 = (Inr (), reg @ b1 # bs1)" "key b1 = ck n1 ctor1"
        "tagMap b1 COMPONENT_TAG \<noteq> None" "map key bs1 = artifactKeys i1"
      by blast
    let ?g = "reg @ b1 # bs1"
    have keys: "set (map key ?g) = set (map key reg) \<union> {ck n1 ctor1} \<union> set (artifactKeys i1)"
      using 1(2,4) by (auto simp: image_Un)
    from h(3,4) keys have "ck n2 ctor2 \<notin> set (map key ?g)" "distinct (ck n2 ctor2 # artifactKeys i2)"
      "set (artifactKeys i2) \<inter> set (map key ?g) = {}"
      by auto
    from ok [OF this(1) h(2) this(2,3)] obtain b2 bs2 where
      2: "component ?g ctor2 n2 = (Inr (), ?g @ b2 # bs2)" "key b2 = ck n2 ctor2"
        "tagMap b2 COMPONENT_TAG \<noteq> None"
      by blast
    from 1 2 show ?thesis
      by (auto simp: find_bindings_def)
  qed
  from one twice both show ?thesis
    unfolding Let_def ck by blast
qed

text \<open>
  Mounting the component of the source's example twice fails with the duplicate key of the
  component; mounting it under two names fails with the duplicate key of its controller;
  a constructor that throws fails the mount; two components with distinct names and no
  artifacts are both found.
\<close>

theorem C8_mount_failures_witness:
  "component (snd (component []
       \<lparr>name = ''ProductComponent'', isLifeCycleObserverClass = False,
        instantiate = Inr \<lparr>componentControllers = [\<lparr>name = ''ProductController''\<rparr>],
                           componentServers = [], componentProviders = []\<rparr>\<rparr> None))
     \<lparr>name = ''ProductComponent'', isLifeCycleObserverClass = False,
      instantiate = Inr \<lparr>componentControllers = [\<lparr>name = ''ProductController''\<rparr>],
                         componentServers = [], componentProviders = []\<rparr>\<rparr> None =
     (Inl (DuplicateKey ''components.ProductComponent''),
      snd (component []
       \<lparr>name = ''ProductComponent'', isLifeCycleObserverClass = False,
        instantiate = Inr \<lparr>componentControllers = [\<lparr>name = ''ProductController''\<rparr>],
                           componentServers = [], componentProviders = []\<rparr>\<rparr> None)) \<and>
   fst (component (snd (component []
       \<lparr>name = ''ProductComponent'', isLifeCycleObserverClass = False,
        instantiate = Inr \<lparr>componentControllers = [\<lparr>name = ''ProductController''\<rparr>],
                           componentServers = [], componentProviders = []\<rparr>\<rparr> (Some ''a'')))
     \<lparr>name = ''ProductComponent'', isLifeCycleObserverClass = False,
      instantiate = Inr \<lparr>componentControllers = [\<lparr>name = ''ProductController''\<rparr>],
                         componentServers = [], componentProviders = []\<rparr>\<rparr> (Some ''b'')) =
     Inl (DuplicateKey ''controllers.ProductController'') \<and>
   fst (component []
     \<lparr>name = ''Broken'', isLifeCycleObserverClass = False,
      instantiate = Inl (Thrown ''boom'')\<rparr> None) = Inl (Thrown ''boom'') \<and>
   map key (find_bindings
     (snd (component (snd (component []
        \<lparr>name = ''Cache'', isLifeCycleObserverClass = True,
         instantiate = Inr \<lparr>componentControllers = [], componentServers = [],
                            componentProviders = []\<rparr>\<rparr> None))
        \<lparr>name = ''Metrics'', isLifeCycleObserverClass = False,
         instantiate = Inr \<lparr>componentControllers = [], componentServers = [],
                            componentProviders = []\<rparr>\<rparr> None))
     (\<lambda>b. tagMap b COMPONENT_TAG \<noteq> None)) = [''components.Cache'', ''components.Metrics'']"
  using C8_mount_failures [of None
      "\<lparr>name = ''ProductComponent'', isLifeCycleObserverClass = False,
        instantiate = Inr \<lparr>componentControllers = [\<lparr>name = ''ProductController''\<rparr>],
                           componentServers = [], componentProviders = []\<rparr>\<rparr>" "[]"
      None
      "\<lparr>name = ''ProductComponent'', isLifeCycleObserverClass = False,
        instantiate = Inr \<lparr>componentControllers = [\<lparr>name = ''ProductController''\<rparr>],
                           componentServers = [], componentProviders = []\<rparr>\<rparr>"
      None
      "\<lparr>name = ''ProductComponent'', isLifeCycleObserverClass = False,
        instantiate = Inr \<lparr>componentControllers = [\<lparr>name = ''ProductController''\<rparr>],
                           componentServers = [], componentProviders = []\<rparr>\<rparr>"]
    C8_mount_failures [of "Some ''b''"
      "\<lparr>name = ''ProductComponent'', isLifeCycleObserverClass = False,
        instantiate = Inr \<lparr>componentControllers = [\<lparr>name = ''ProductController''\<rparr>],
                           componentServers = [], componentProviders = []\<rparr>\<rparr>"
      "snd (component []
       \<lparr>name = ''ProductComponent'', isLifeCycleObserverClass = False,
        instantiate = Inr \<lparr>componentControllers = [\<lparr>name = ''ProductController''\<rparr>],
                           componentServers = [], componentProviders = []\<rparr>\<rparr> (Some ''a''))"
      None
      "\<lparr>name = ''ProductComponent'', isLifeCycleObserverClass = False,
        instantiate = Inr \<lparr>componentControllers = [\<lparr>name = ''ProductController''\<rparr>],
                           componentServers = [], componentProviders = []\<rparr>\<rparr>"
      None
      "\<lparr>name = ''ProductComponent'', isLifeCycleObserverClass = False,
        instantiate = Inr \<lparr>componentControllers = [\<lparr>name = ''ProductController''\<rparr>],
                           componentServers = [], componentProviders = []\<rparr>\<rparr>"]
    C8_mount_failures [of None
      "\<lparr>name = ''Broken'', isLifeCycleObserverClass = False,
        instantiate = Inl (Thrown ''boom'')\<rparr>" "[]"
      None
      "\<lparr>name = ''Cache'', isLifeCycleObserverClass = True,
         instantiate = Inr \<lparr>componentControllers = [], componentServers = [],
                            componentProviders = []\<rparr>\<rparr>"
      None
      "\<lparr>name = ''Metrics'', isLifeCycleObserverClass = False,
         instantiate = Inr \<lparr>componentControllers = [], componentServers = [],
                            componentProviders = []\<rparr>\<rparr>"]
  by (simp add: component_def mountComponent_def controller_def server_def provider_def
  bind_def store_def or_default_def Let_def COMPONENTS_def SERVERS_def SERVER_TAG_def
  COMPONENT_TAG_def CONTROLLER_TAG_def LIFE_CYCLE_OBSERVER_TAG_def asLifeCycleObserverBinding_def
  tag_def toClass_def toProvider_def inScope_def find_bindings_def artifactKeys_def)

subsection \<open>Schema migration\<close>

text \<open>
  Claim C9: in both versions of \<^verbatim>\<open>migrate\<close>, every call of \<^verbatim>\<open>migrateSchema\<close> passes the
  option \<open>True\<close> if and only if the argument list contains the string "--rebuild" itself, and
  \<open>False\<close> otherwise; the call is made, once, exactly when \<^verbatim>\<open>boot\<close> completes.
\<close>

theorem C9_migrate_rebuild_flag:
  "requested (snd (migrate app args)) =
     (if boot app = None then [''--rebuild'' \<in> set args] else []) \<and>
   requested (snd (migrate_rebuild app args)) =
     (if boot app = None then [''--rebuild'' \<in> set args] else []) \<and>
   (MigrateSchema True \<in> set (snd (migrate app args)) \<longleftrightarrow>
      boot app = None \<and> ''--rebuild'' \<in> set args) \<and>
   (MigrateSchema False \<in> set (snd (migrate app args)) \<longleftrightarrow>
      boot app = None \<and> ''--rebuild'' \<notin> set args) \<and>
   (MigrateSchema True \<in> set (snd (migrate_rebuild app args)) \<longleftrightarrow>
      boot app = None \<and> ''--rebuild'' \<in> set args) \<and>
   (MigrateSchema False \<in> set (snd (migrate_rebuild app args)) \<longleftrightarrow>
      boot app = None \<and> ''--rebuild'' \<notin> set args)"
  by (auto simp: migrate_def migrate_rebuild_def Let_def split: option.splits)

text \<open>
  \<^verbatim>\<open>node dist/src/migrate --rebuild\<close> rebuilds, \<^verbatim>\<open>node dist/src/migrate\<close> updates, and an
  argument that only contains "--rebuild" does not count.
\<close>

theorem C9_migrate_rebuild_flag_witness:
  "requested (snd (migrate \<lparr>boot = None :: string option, migrateSchema = (\<lambda>f. None)\<rparr>
      [''node'', ''dist/src/migrate'', ''--rebuild''])) = [True] \<and>
   requested (snd (migrate \<lparr>boot = None :: string option, migrateSchema = (\<lambda>f. None)\<rparr>
      [''node'', ''dist/src/migrate''])) = [False] \<and>
   requested (snd (migrate_rebuild \<lparr>boot = None :: string option, migrateSchema = (\<lambda>f. None)\<rparr>
      [''node'', ''dist/src/migrate'', ''--rebuild=all'', ''--REBUILD''])) = [False] \<and>
   requested (snd (migrate \<lparr>boot = Some ''no datasource'', migrateSchema = (\<lambda>f. None)\<rparr>
      [''node'', ''dist/src/migrate'', ''--rebuild''])) = []"
  using
    C9_migrate_rebuild_flag [of "\<lparr>boot = None :: string option, migrateSchema = (\<lambda>f. None)\<rparr>"
      "[''node'', ''dist/src/migrate'', ''--rebuild'']"]
    C9_migrate_rebuild_flag [of "\<lparr>boot = None :: string option, migrateSchema = (\<lambda>f. None)\<rparr>"
      "[''node'', ''dist/src/migrate'']"]
    C9_migrate_rebuild_flag [of "\<lparr>boot = None :: string option, migrateSchema = (\<lambda>f. None)\<rparr>"
      "[''node'', ''dist/src/migrate'', ''--rebuild=all'', ''--REBUILD'']"]
    C9_migrate_rebuild_flag [of "\<lparr>boot = Some ''no datasource'', migrateSchema = (\<lambda>f. None)\<rparr>"
      "[''node'', ''dist/src/migrate'', ''--rebuild'']"]
  by simp

subsection \<open>The type guard\<close>

text \<open>
  Claim C10: \<^verbatim>\<open>isMigrateableRepository\<close> throws a TypeError exactly on \<^verbatim>\<open>null\<close> and
  \<^verbatim>\<open>undefined\<close>; on every other value it returns whether the \<^verbatim>\<open>migrateSchema\<close> property of
  the value is a function. For an object the answer depends on that property alone: it is
  true for an object with a function \<^verbatim>\<open>migrateSchema\<close> and nothing else, and false for an
  object without one, whatever else it has.
\<close>

theorem C10_isMigrateableRepository:
  "(isMigrateableRepository repo = Inl TypeError \<longleftrightarrow> repo = JSNull \<or> repo = JSUndefined) \<and>
   (isMigrateableRepository repo = Inr True \<longleftrightarrow>
      (\<exists>f. getProperty repo ''migrateSchema'' = Inr (JSFunction f))) \<and>
   (isMigrateableRepository repo = Inr False \<longleftrightarrow>
      (\<exists>v. getProperty repo ''migrateSchema'' = Inr v \<and> typeof v \<noteq> ''function'')) \<and>
   isMigrateableRepository (JSObject ps) =
     Inr (\<exists>f. map_of ps ''migrateSchema'' = Some (JSFunction f)) \<and>
   isMigrateableRepository (JSObject [(''migrateSchema'', JSFunction f)]) = Inr True \<and>
   isMigrateableRepository (JSObject (filter (\<lambda>p. fst p \<noteq> ''migrateSchema'') ps)) = Inr False"
proof -
  have tf: "(typeof v = ''function'') = (\<exists>f. v = JSFunction f)" for v
    by (cases v) simp_all
  have 1: "isMigrateableRepository repo = Inl TypeError \<longleftrightarrow> repo = JSNull \<or> repo = JSUndefined"
    by (cases repo) (simp_all add: isMigrateableRepository_def split: option.splits)
  have 2: "isMigrateableRepository repo = Inr True \<longleftrightarrow>
      (\<exists>f. getProperty repo ''migrateSchema'' = Inr (JSFunction f))"
    by (cases "getProperty repo ''migrateSchema''") (auto simp: isMigrateableRepository_def tf)
  have 3: "isMigrateableRepository repo = Inr False \<longleftrightarrow>
      (\<exists>v. getProperty repo ''migrateSchema'' = Inr v \<and> typeof v \<noteq> ''function'')"
    by (cases "getProperty repo ''migrateSchema''") (auto simp: isMigrateableRepository_def)
  have 4: "isMigrateableRepository (JSObject ps) =
     Inr (\<exists>f. map_of ps ''migrateSchema'' = Some (JSFunction f))"
    by (cases "map_of ps ''migrateSchema''") (simp_all add: isMigrateableRepository_def tf)
  have 5: "isMigrateableRepository (JSObject [(''migrateSchema'', JSFunction f)]) = Inr True"
    by (simp add: isMigrateableRepository_def)
  have "map_of (filter (\<lambda>p. fst p \<noteq> ''migrateSchema'') ps) ''migrateSchema'' = None"
    by (induction ps) auto
  then have 6: "isMigrateableRepository (JSObject (filter (\<lambda>p. fst p \<noteq> ''migrateSchema'') ps)) =
      Inr False"
    by (simp add: isMigrateableRepository_def)
  from 1 2 3 4 5 6 show ?thesis by blast
qed

text \<open>
  \<^verbatim>\<open>null\<close> and \<^verbatim>\<open>undefined\<close> throw; an object whose only property is a function
  \<^verbatim>\<open>migrateSchema\<close> is accepted; a repository with \<^verbatim>\<open>find\<close> and \<^verbatim>\<open>create\<close> but a string
  \<^verbatim>\<open>migrateSchema\<close> is not; a number is not.
\<close>

theorem C10_isMigrateableRepository_witness:
  "isMigrateableRepository JSNull = Inl TypeError \<and>
   isMigrateableRepository JSUndefined = Inl TypeError \<and>
   isMigrateableRepository (JSObject [(''migrateSchema'', JSFunction [])]) = Inr True \<and>
   isMigrateableRepository
     (JSObject [(''find'', JSFunction []), (''create'', JSFunction []),
                (''migrateSchema'', JSString ''yes'')]) = Inr False \<and>
   isMigrateableRepository (JSNumber 42) = Inr False"
  using C10_isMigrateableRepository [of JSNull "[]" "[]"]
    C10_isMigrateableRepository [of JSUndefined "[]" "[]"]
    C10_isMigrateableRepository [of "JSObject [(''migrateSchema'', JSFunction [])]" "[]" "[]"]
    C10_isMigrateableRepository [of "JSNumber 42"
      "[(''find'', JSFunction []), (''create'', JSFunction []),
        (''migrateSchema'', JSString ''yes'')]" "[]"]
  by simp

end
